theory Spec2Isabelle
  imports Main "HOL-Library.AList"
begin

section \<open>Data model of \<^verbatim>\<open>src/backend/app.py\<close>\<close>

text \<open>
  The module keeps three process-wide dictionaries. A Python \<^verbatim>\<open>dict\<close> iterates in
  insertion order, and the order decides which group a polling cycle fetches first, so a
  dictionary is an association list: \<open>map_of\<close> reads a key, \<open>AList.update\<close> assigns it
  (an existing key keeps its place, a new key goes to the end) and \<open>AList.delete\<close> pops it.

  The dictionaries describing one class section (\<^verbatim>\<open>class_details\<close>, \<^verbatim>\<open>fresh_details\<close>) are
  read at the keys below; they are taken well formed, that is with every key present and
  a string under it. Status strings are kept as strings: the code compares them with
  \<^verbatim>\<open>'OPEN'\<close> and \<^verbatim>\<open>'FULL'\<close> only, and any other text can arrive from the fetch.
\<close>

record details =
  classNumber :: string
  className :: string
  status :: string
  title :: string
  instructor :: string
  seats :: string

text \<open>A value of \<^verbatim>\<open>notify_tracker\<close>: \<^verbatim>\<open>{'count': .., 'lastSent': .., 'lastStatus': ..}\<close>.
  Times are Python integers (milliseconds), so \<open>int\<close>.\<close>

record tracker =
  count :: int
  lastSent :: int
  lastStatus :: string

text \<open>\<^verbatim>\<open>app_settings\<close>; the key \<^verbatim>\<open>'term'\<close> is the field \<open>term_code\<close>. A topic that is
  \<^verbatim>\<open>None\<close> or empty is falsy in \<^verbatim>\<open>if not ntfy_topic\<close>; both are the empty string here.\<close>

record settings =
  term_code :: string
  ntfyTopic :: string

record state =
  tracked_classes :: "(string \<times> details) list"
  app_settings :: settings
  notify_tracker :: "(string \<times> tracker) list"

definition MAX_NOTIFICATIONS :: int where
  "MAX_NOTIFICATIONS = 10"

definition NOTIFICATION_INTERVAL_HOURS :: int where
  "NOTIFICATION_INTERVAL_HOURS = 1"

text \<open>The literal \<^verbatim>\<open>{'count': 0, 'lastSent': 0, 'lastStatus': 'FULL'}\<close> of lines 95, 100
  and 120.\<close>

definition initial_tracker :: tracker where
  "initial_tracker = \<lparr>count = 0, lastSent = 0, lastStatus = ''FULL''\<rparr>"

section \<open>\<^verbatim>\<open>send_notification\<close> (lines 148-180)\<close>

text \<open>
  What \<^verbatim>\<open>requests.post\<close> is handed: the topic of the URL, the \<^verbatim>\<open>Title\<close> header, and the
  message body. The body is an f-string over the reason, the class name and number, the
  count read from \<^verbatim>\<open>notify_tracker\<close> together with \<^verbatim>\<open>MAX_NOTIFICATIONS\<close> (reminders only),
  and the title, instructor and seats of the class; the record keeps these parts rather
  than the rendered text.
\<close>

record alert =
  topic :: string
  heading :: string
  reason_of :: string
  shown :: "(int \<times> int) option"
  about :: details

text \<open>
  The four ways the function ends: the early return on an unset topic (line 152), the
  \<^verbatim>\<open>else: return\<close> on an unknown reason (line 167), the post returning (line 178), and
  the post raising, caught by \<^verbatim>\<open>except Exception\<close> and logged (line 180). In each the
  function returns \<^verbatim>\<open>None\<close> to its caller; the value below records which one happened.
\<close>

datatype delivery = No_topic | No_reason | Sent alert | Send_error alert

text \<open>The network is the parameter \<open>post\<close>: \<open>post a\<close> holds when \<^verbatim>\<open>requests.post\<close>
  returns for the alert \<open>a\<close>, and fails when it raises.\<close>

definition send_notification ::
  "(alert \<Rightarrow> bool) \<Rightarrow> state \<Rightarrow> details \<Rightarrow> string \<Rightarrow> delivery" where
  "send_notification post s class_details reason =
    (let ntfy_topic = ntfyTopic (app_settings s) in
     if ntfy_topic = [] then No_topic
     else
       (let class_name = className class_details;
            rendered =
              (if reason = ''OPEN'' then Some (''Seat Open: '' @ class_name, None)
               else if reason = ''FULL'' then Some (''Class Full: '' @ class_name, None)
               else if reason = ''REMINDER'' then
                 Some (''Still Open: '' @ class_name,
                   Some ((case map_of (notify_tracker s) (classNumber class_details) of
                            None \<Rightarrow> 0
                          | Some t \<Rightarrow> count t),
                         MAX_NOTIFICATIONS))
               else None)
        in case rendered of
             None \<Rightarrow> No_reason
           | Some (title_text, cnt) \<Rightarrow>
               (let a = \<lparr>topic = ntfy_topic, heading = title_text, reason_of = reason,
                          shown = cnt, about = class_details\<rparr>
                in if post a then Sent a else Send_error a)))"

text \<open>One call of \<^verbatim>\<open>send_notification(details, reason)\<close> by the notification logic: the
  reason, the details passed, and how the call ended.\<close>

datatype emission = Emission (kind: string) (subject: details) (outcome: delivery)

section \<open>\<^verbatim>\<open>check_class_statuses\<close> (lines 103-134)\<close>

text \<open>
  An update of the dictionary object \<^verbatim>\<open>tracker\<close>. At line 120 the object is
  \<^verbatim>\<open>notify_tracker.get(num, {...})\<close>: the dictionary stored under \<^verbatim>\<open>num\<close> when there is
  one, and then every update of it is an update of \<^verbatim>\<open>notify_tracker[num]\<close>; otherwise a
  new dictionary that \<^verbatim>\<open>notify_tracker\<close> does not hold, and updates of it are seen nowhere
  else. \<open>shared\<close> says which of the two it is.
\<close>

definition tracker_update :: "bool \<Rightarrow> string \<Rightarrow> tracker \<Rightarrow> state \<Rightarrow> state" where
  "tracker_update shared num t s =
    (if shared then s\<lparr>notify_tracker := AList.update num t (notify_tracker s)\<rparr> else s)"

text \<open>
  The body of \<^verbatim>\<open>for num in numbers\<close> (lines 116-134), the spec's \<open>observe\<close>. \<open>now\<close> is
  what \<^verbatim>\<open>int(time.time() * 1000)\<close> returns at line 129.
\<close>

definition observe ::
  "(alert \<Rightarrow> bool) \<Rightarrow> (string \<times> details) list \<Rightarrow> int \<Rightarrow> string \<Rightarrow> state
    \<Rightarrow> state \<times> emission list" where
  "observe post fresh_details_map now num s =
    (case map_of fresh_details_map num of
       None \<Rightarrow> (s, [])
     | Some new_details \<Rightarrow>
        (let s1 = s\<lparr>tracked_classes := AList.update num new_details (tracked_classes s)\<rparr>;
             stored = map_of (notify_tracker s1) num;
             shared = (stored \<noteq> None);
             tracker = (case stored of None \<Rightarrow> initial_tracker | Some t \<Rightarrow> t);
             old_status = lastStatus tracker;
             new_status = status new_details
         in if new_status = old_status then (s1, [])
            else if new_status = ''OPEN'' then
              (let t1 = tracker\<lparr>count := 0, lastSent := 0\<rparr>;
                   s2 = tracker_update shared num t1 s1;
                   e = Emission ''OPEN'' new_details
                         (send_notification post s2 new_details ''OPEN'');
                   t2 = t1\<lparr>count := 1, lastSent := now\<rparr>;
                   s3 = tracker_update shared num t2 s2
               in (tracker_update shared num (t2\<lparr>lastStatus := new_status\<rparr>) s3, [e]))
            else if new_status = ''FULL'' \<and> old_status = ''OPEN'' then
              (let e = Emission ''FULL'' new_details
                         (send_notification post s1 new_details ''FULL'');
                   t1 = tracker\<lparr>count := 0, lastSent := 0\<rparr>;
                   s2 = tracker_update shared num t1 s1
               in (tracker_update shared num (t1\<lparr>lastStatus := new_status\<rparr>) s2, [e]))
            else (tracker_update shared num (tracker\<lparr>lastStatus := new_status\<rparr>) s1, [])))"

text \<open>Line 113, \<^verbatim>\<open>{d['classNumber']: d for d in fresh_details_list}\<close>: a later entry of
  the list replaces an earlier one with the same class number.\<close>

definition fresh_details_map :: "details list \<Rightarrow> (string \<times> details) list" where
  "fresh_details_map fresh_details_list =
    foldl (\<lambda>m d. AList.update (classNumber d) d m) [] fresh_details_list"

text \<open>The loop of line 115 over the numbers of one group. \<open>clock num\<close> is the time read
  while \<open>num\<close> is processed.\<close>

fun check_numbers ::
  "(alert \<Rightarrow> bool) \<Rightarrow> (string \<times> details) list \<Rightarrow> (string \<Rightarrow> int) \<Rightarrow> string list \<Rightarrow> state
    \<Rightarrow> state \<times> emission list" where
  "check_numbers post fm clock [] s = (s, [])"
| "check_numbers post fm clock (num # numbers) s =
    (let (s1, es1) = observe post fm (clock num) num s;
         (s2, es2) = check_numbers post fm clock numbers s1
     in (s2, es1 @ es2))"

text \<open>Lines 108-109: the \<^verbatim>\<open>defaultdict(list)\<close> from class name to the class numbers
  tracked under it, filled in the order of \<^verbatim>\<open>tracked_classes.values()\<close>.\<close>

definition classes_to_fetch :: "(string \<times> details) list \<Rightarrow> (string \<times> string list) list" where
  "classes_to_fetch tc =
    foldl (\<lambda>acc d.
        AList.update (className d)
          ((case map_of acc (className d) of None \<Rightarrow> [] | Some ns \<Rightarrow> ns) @ [classNumber d])
          acc)
      [] (map snd tc)"

text \<open>
  Modelled from the spec: \<^verbatim>\<open>class_checker.fetch_class_details\<close> is imported at line 5 and
  its module is not among the sources. The spec gives it as
  \<^verbatim>\<open>fetch(groupKey, term) -> sequence of Snapshot, fails with FetchError\<close>, so it is the
  parameter \<open>fetch\<close>, returning the list or failing. A failure is a Python exception
  raised inside the call.
\<close>

datatype fetch_error = FetchError

type_synonym fetcher = "string \<Rightarrow> string \<Rightarrow> fetch_error + details list"

text \<open>
  The loop of line 111 over the groups. Nothing in \<^verbatim>\<open>check_class_statuses\<close> catches an
  exception of the fetch at line 112: it leaves the loop and the function, with the state
  as the groups before it left it. The third component is the exception that left the
  function, if any.
\<close>

fun check_groups ::
  "fetcher \<Rightarrow> (alert \<Rightarrow> bool) \<Rightarrow> (string \<Rightarrow> int) \<Rightarrow> (string \<times> string list) list \<Rightarrow> state
    \<Rightarrow> state \<times> emission list \<times> fetch_error option" where
  "check_groups fetch post clock [] s = (s, [], None)"
| "check_groups fetch post clock ((class_name, numbers) # rest) s =
    (case fetch class_name (term_code (app_settings s)) of
       Inl e \<Rightarrow> (s, [], Some e)
     | Inr fresh_details_list \<Rightarrow>
        (let (s1, es1) =
               check_numbers post (fresh_details_map fresh_details_list) clock numbers s;
             (s2, es2, r) = check_groups fetch post clock rest s1
         in (s2, es1 @ es2, r)))"

definition check_class_statuses ::
  "fetcher \<Rightarrow> (alert \<Rightarrow> bool) \<Rightarrow> (string \<Rightarrow> int) \<Rightarrow> state
    \<Rightarrow> state \<times> emission list \<times> fetch_error option" where
  "check_class_statuses fetch post clock s =
    (if tracked_classes s = [] then (s, [], None)
     else check_groups fetch post clock (classes_to_fetch (tracked_classes s)) s)"

section \<open>\<^verbatim>\<open>hourly_reminder_check\<close> (lines 136-146)\<close>

text \<open>
  The loop runs over \<^verbatim>\<open>list(notify_tracker.items())\<close>, a copy of the items taken before
  the first iteration; each \<^verbatim>\<open>tracker\<close> of the copy is the dictionary object stored
  under \<^verbatim>\<open>num\<close>, so lines 145-146 update \<^verbatim>\<open>notify_tracker[num]\<close>. \<^verbatim>\<open>not details\<close> is a
  missing entry of \<^verbatim>\<open>tracked_classes\<close> (a details dictionary is never empty).
\<close>

fun reminder_loop ::
  "(alert \<Rightarrow> bool) \<Rightarrow> int \<Rightarrow> (string \<times> tracker) list \<Rightarrow> state \<Rightarrow> state \<times> emission list" where
  "reminder_loop post now [] s = (s, [])"
| "reminder_loop post now ((num, tracker) # items) s =
    (case map_of (tracked_classes s) num of
       None \<Rightarrow> reminder_loop post now items s
     | Some details \<Rightarrow>
        if status details \<noteq> ''OPEN'' then reminder_loop post now items s
        else if 0 < count tracker \<and> count tracker < MAX_NOTIFICATIONS
                \<and> now - lastSent tracker \<ge> NOTIFICATION_INTERVAL_HOURS * 60 * 60 * 1000 then
          (let e = Emission ''REMINDER'' details
                     (send_notification post s details ''REMINDER'');
               s1 = s\<lparr>notify_tracker :=
                       AList.update num (tracker\<lparr>count := count tracker + 1, lastSent := now\<rparr>)
                         (notify_tracker s)\<rparr>;
               (s2, es) = reminder_loop post now items s1
           in (s2, e # es))
        else reminder_loop post now items s)"

definition hourly_reminder_check ::
  "(alert \<Rightarrow> bool) \<Rightarrow> int \<Rightarrow> state \<Rightarrow> state \<times> emission list" where
  "hourly_reminder_check post now s = reminder_loop post now (notify_tracker s) s"

section \<open>Adding and removing a tracked class (lines 68-101)\<close>

text \<open>The loop of lines 90-101: the first entry of the fetched list with the class number
  is used, then \<^verbatim>\<open>break\<close>; a list without such an entry leaves the loop with nothing
  done.\<close>

fun immediate_loop ::
  "(alert \<Rightarrow> bool) \<Rightarrow> int \<Rightarrow> string \<Rightarrow> details list \<Rightarrow> state \<Rightarrow> state \<times> emission list" where
  "immediate_loop post now class_number [] s = (s, [])"
| "immediate_loop post now class_number (fresh_details # others) s =
    (if classNumber fresh_details = class_number then
       (let s1 = s\<lparr>tracked_classes :=
                     AList.update class_number fresh_details (tracked_classes s)\<rparr>
        in if status fresh_details = ''OPEN'' then
             (let s2 = s1\<lparr>notify_tracker :=
                           AList.update class_number initial_tracker (notify_tracker s1)\<rparr>;
                  e = Emission ''OPEN'' fresh_details
                        (send_notification post s2 fresh_details ''OPEN'')
              in (s2\<lparr>notify_tracker :=
                       AList.update class_number
                         (initial_tracker\<lparr>count := 1, lastSent := now, lastStatus := ''OPEN''\<rparr>)
                         (notify_tracker s2)\<rparr>, [e]))
           else
             (s1\<lparr>notify_tracker :=
                   AList.update class_number initial_tracker (notify_tracker s1)\<rparr>, []))
     else immediate_loop post now class_number others s)"

definition perform_immediate_check ::
  "fetcher \<Rightarrow> (alert \<Rightarrow> bool) \<Rightarrow> int \<Rightarrow> details \<Rightarrow> state
    \<Rightarrow> state \<times> emission list \<times> fetch_error option" where
  "perform_immediate_check fetch post now class_details s =
    (let class_number = classNumber class_details in
     case fetch (className class_details) (term_code (app_settings s)) of
       Inl e \<Rightarrow> (s, [], Some e)
     | Inr fresh_details_list \<Rightarrow>
        (let (s1, es) = immediate_loop post now class_number fresh_details_list s
         in (s1, es, None)))"

text \<open>The answer of the route \<^verbatim>\<open>POST /api/tracked\<close>: status 400 without a class number,
  status 201 with the tracked list, or the exception of the fetch leaving the handler.\<close>

datatype response = Bad_request | Created "details list" | Raised fetch_error

definition add_tracked_class ::
  "fetcher \<Rightarrow> (alert \<Rightarrow> bool) \<Rightarrow> int \<Rightarrow> details \<Rightarrow> state
    \<Rightarrow> state \<times> emission list \<times> response" where
  "add_tracked_class fetch post now class_details s =
    (let class_number = classNumber class_details in
     if class_number = [] then (s, [], Bad_request)
     else
       (let s1 = s\<lparr>tracked_classes :=
                     AList.update class_number class_details (tracked_classes s)\<rparr>;
            (s2, es, r) = perform_immediate_check fetch post now class_details s1
        in (s2, es,
            (case r of
               Some e \<Rightarrow> Raised e
             | None \<Rightarrow> Created (map snd (tracked_classes s2))))))"

definition delete_tracked_class :: "string \<Rightarrow> state \<Rightarrow> state" where
  "delete_tracked_class class_number s =
    s\<lparr>tracked_classes := AList.delete class_number (tracked_classes s),
      notify_tracker := AList.delete class_number (notify_tracker s)\<rparr>"

section \<open>What is observed of the notification logic\<close>

text \<open>The calls of \<^verbatim>\<open>send_notification\<close> without their outcome: reason and details.\<close>

definition calls :: "emission list \<Rightarrow> (string \<times> details) list" where
  "calls es = map (\<lambda>e. (kind e, subject e)) es"

text \<open>The calls that are about one class, and the reminders among them.\<close>

definition emissions_for :: "string \<Rightarrow> emission list \<Rightarrow> emission list" where
  "emissions_for num es = filter (\<lambda>e. classNumber (subject e) = num) es"

definition reminders_for :: "string \<Rightarrow> emission list \<Rightarrow> emission list" where
  "reminders_for num es = filter (\<lambda>e. kind e = ''REMINDER'' \<and> classNumber (subject e) = num) es"

text \<open>The count that a delivered or failed alert displays, with the maximum next to it.\<close>

fun displayed :: "delivery \<Rightarrow> (int \<times> int) option" where
  "displayed (Sent a) = shown a"
| "displayed (Send_error a) = shown a"
| "displayed No_topic = None"
| "displayed No_reason = None"

text \<open>The tests of lines 141 and 142 together: whether the reminder loop sends for the
  item \<open>(num, tracker)\<close>.\<close>

definition reminder_due :: "(string \<times> details) list \<Rightarrow> int \<Rightarrow> string \<Rightarrow> tracker \<Rightarrow> bool" where
  "reminder_due tc now num tracker =
    (case map_of tc num of
       None \<Rightarrow> False
     | Some d \<Rightarrow> status d = ''OPEN'' \<and> 0 < count tracker \<and> count tracker < MAX_NOTIFICATIONS
         \<and> now - lastSent tracker \<ge> NOTIFICATION_INTERVAL_HOURS * 60 * 60 * 1000)"

text \<open>What the module holds about one class: its snapshot in \<^verbatim>\<open>tracked_classes\<close> and its
  tracker in \<^verbatim>\<open>notify_tracker\<close>.\<close>

definition entry :: "state \<Rightarrow> string \<Rightarrow> details option \<times> tracker option" where
  "entry s num = (map_of (tracked_classes s) num, map_of (notify_tracker s) num)"

text \<open>The dictionary that lines 112-113 build for a class name whose fetch returns.\<close>

definition fetched_map :: "fetcher \<Rightarrow> state \<Rightarrow> string \<Rightarrow> (string \<times> details) list" where
  "fetched_map fetch s class_name =
    (case fetch class_name (term_code (app_settings s)) of
       Inl e \<Rightarrow> []
     | Inr fresh_details_list \<Rightarrow> fresh_details_map fresh_details_list)"

section \<open>Well-formed states\<close>

text \<open>
  Every assignment to \<^verbatim>\<open>tracked_classes\<close> (lines 74, 92 and 118) stores details under
  their own class number. The keys of a Python dictionary are distinct; for an
  association list this is said by \<open>distinct (map fst _)\<close>.
\<close>

definition keys_match :: "(string \<times> details) list \<Rightarrow> bool" where
  "keys_match tc = list_all (\<lambda>(k, d). classNumber d = k) tc"

text \<open>Every stored count lies in the range from 0 to \<^verbatim>\<open>MAX_NOTIFICATIONS\<close>.\<close>

definition counts_ok :: "(string \<times> tracker) list \<Rightarrow> bool" where
  "counts_ok nt = list_all (\<lambda>(k, t). 0 \<le> count t \<and> count t \<le> MAX_NOTIFICATIONS) nt"

text \<open>The states the module can be in: both dictionaries have distinct keys, the tracked
  details carry their key, and the counts are in range.\<close>

definition wf_state :: "state \<Rightarrow> bool" where
  "wf_state s =
    (distinct (map fst (tracked_classes s)) \<and> keys_match (tracked_classes s)
     \<and> distinct (map fst (notify_tracker s)) \<and> counts_ok (notify_tracker s))"

section \<open>Sequences of observations and reminder checks\<close>

text \<open>
  \<open>Observe ds now num\<close> is one run of the body of the loop of line 115 for \<open>num\<close> with
  the fetched list \<open>ds\<close>; \<open>Tick now\<close> is one run of \<^verbatim>\<open>hourly_reminder_check\<close> at the
  time \<open>now\<close>.
\<close>

datatype operation = Observe "details list" int string | Tick int

fun step :: "(alert \<Rightarrow> bool) \<Rightarrow> operation \<Rightarrow> state \<Rightarrow> state \<times> emission list" where
  "step post (Observe ds now num) s = observe post (fresh_details_map ds) now num s"
| "step post (Tick now) s = hourly_reminder_check post now s"

fun run :: "(alert \<Rightarrow> bool) \<Rightarrow> operation list \<Rightarrow> state \<Rightarrow> state \<times> emission list" where
  "run post [] s = (s, [])"
| "run post (x # xs) s =
    (let (s1, es1) = step post x s;
         (s2, es2) = run post xs s1
     in (s2, es1 @ es2))"

text \<open>An open streak of \<open>num\<close>: every observation of \<open>num\<close> in the sequence that finds it
  in the fetched list finds it \<^verbatim>\<open>OPEN\<close>.\<close>

fun stays_open :: "string \<Rightarrow> operation \<Rightarrow> bool" where
  "stays_open num (Observe ds now k) =
    (k \<noteq> num \<or>
      (case map_of (fresh_details_map ds) num of None \<Rightarrow> True | Some d \<Rightarrow> status d = ''OPEN''))"
| "stays_open num (Tick now) = True"

section \<open>Concrete inputs\<close>

text \<open>One section of a course, as the fetch reports it when full and when a seat is
  free, and the settings the module starts with (line 24).\<close>

definition cse101_full :: details where
  "cse101_full = \<lparr>classNumber = ''12345'', className = ''CSE 101'', status = ''FULL'',
     title = ''Programming'', instructor = ''Staff'', seats = ''30 of 30''\<rparr>"

definition cse101_open :: details where
  "cse101_open = cse101_full\<lparr>status := ''OPEN'', seats := ''29 of 30''\<rparr>"

definition settings0 :: settings where
  "settings0 = \<lparr>term_code = ''2257'', ntfyTopic = ''susumaanclassalerts''\<rparr>"

text \<open>The state of the module at start, the state with the section tracked and full, the
  state right after the seat-opened alert of time 1000, the state later in that open
  streak (three alerts sent), and the state with the section tracked but without an
  entry of \<^verbatim>\<open>notify_tracker\<close>.\<close>

definition state_empty :: state where
  "state_empty = \<lparr>tracked_classes = [], app_settings = settings0, notify_tracker = []\<rparr>"

definition state_full :: state where
  "state_full = \<lparr>tracked_classes = [(''12345'', cse101_full)], app_settings = settings0,
     notify_tracker = [(''12345'', initial_tracker)]\<rparr>"

definition state_open :: state where
  "state_open = \<lparr>tracked_classes = [(''12345'', cse101_open)], app_settings = settings0,
     notify_tracker = [(''12345'', \<lparr>count = 3, lastSent = 1000, lastStatus = ''OPEN''\<rparr>)]\<rparr>"

definition state_opened :: state where
  "state_opened = \<lparr>tracked_classes = [(''12345'', cse101_open)], app_settings = settings0,
     notify_tracker = [(''12345'', \<lparr>count = 1, lastSent = 1000, lastStatus = ''OPEN''\<rparr>)]\<rparr>"

definition state_no_tracker :: state where
  "state_no_tracker = \<lparr>tracked_classes = [(''12345'', cse101_full)], app_settings = settings0,
     notify_tracker = []\<rparr>"

text \<open>A fetch that reports no section at all, and one that reports the section open.\<close>

definition fetch_nothing :: fetcher where
  "fetch_nothing class_name term = Inr []"

definition fetch_open :: fetcher where
  "fetch_open class_name term = Inr [cse101_open]"

text \<open>Operations of an open streak: a reminder check an hour after the opening alert, a
  poll that finds the section still open, and a reminder check an hour later.\<close>

definition streak_ops :: "operation list" where
  "streak_ops = [Tick 3601000, Observe [cse101_open] 3700000 ''12345'', Tick 7201000]"

text \<open>A second section, of another course, so that a cycle has two groups; a fetch that
  fails for the first group and one that fails for the second.\<close>

definition mat267_full :: details where
  "mat267_full = \<lparr>classNumber = ''67890'', className = ''MAT 267'', status = ''FULL'',
     title = ''Calculus'', instructor = ''Staff'', seats = ''40 of 40''\<rparr>"

definition mat267_open :: details where
  "mat267_open = mat267_full\<lparr>status := ''OPEN'', seats := ''39 of 40''\<rparr>"

definition state_two_groups :: state where
  "state_two_groups = \<lparr>tracked_classes = [(''12345'', cse101_full), (''67890'', mat267_full)],
     app_settings = settings0,
     notify_tracker = [(''12345'', initial_tracker), (''67890'', initial_tracker)]\<rparr>"

definition fetch_first_fails :: fetcher where
  "fetch_first_fails class_name term =
    (if class_name = ''CSE 101'' then Inl FetchError else Inr [mat267_open])"

definition fetch_second_fails :: fetcher where
  "fetch_second_fails class_name term =
    (if class_name = ''MAT 267'' then Inl FetchError else Inr [cse101_open])"

section \<open>Facts about \<^verbatim>\<open>send_notification\<close>\<close>

text \<open>The function never reads \<^verbatim>\<open>tracked_classes\<close>, and reads \<^verbatim>\<open>notify_tracker\<close> for a
  reminder only.\<close>

lemma send_notification_tracked [simp]:
  "send_notification post (s\<lparr>tracked_classes := tc\<rparr>) d reason = send_notification post s d reason"
  by (simp add: send_notification_def Let_def)

lemma send_notification_tracker [simp]:
  "reason \<noteq> ''REMINDER'' \<Longrightarrow>
    send_notification post (s\<lparr>notify_tracker := nt\<rparr>) d reason = send_notification post s d reason"
  by (simp add: send_notification_def Let_def)

section \<open>One observation of a class with a stored tracker\<close>

text \<open>A status equal to the stored \<^verbatim>\<open>lastStatus\<close> takes the \<^verbatim>\<open>continue\<close> of line 123:
  nothing is sent and only \<^verbatim>\<open>tracked_classes[num]\<close> is replaced.\<close>

lemma observe_same_status:
  assumes "map_of (notify_tracker s) num = Some t"
    and "map_of fm num = Some d"
    and "status d = lastStatus t"
  shows "observe post fm now num s
     = (s\<lparr>tracked_classes := AList.update num d (tracked_classes s)\<rparr>, [])"
  using assms by (simp add: observe_def Let_def)

text \<open>After an observation the stored tracker has the observed status (line 134).\<close>

lemma observe_sets_lastStatus:
  assumes "map_of (notify_tracker s) num = Some t"
    and "map_of fm num = Some d"
  shows "\<exists>t'. map_of (notify_tracker (fst (observe post fm now num s))) num = Some t'
     \<and> lastStatus t' = status d"
  using assms by (simp add: observe_def tracker_update_def Let_def update_conv')

text \<open>
  Claim C1, at the input where the code departs from it. The section is added while the
  fetch does not report it, so it is tracked without an entry of \<^verbatim>\<open>notify_tracker\<close>; two
  polling cycles in a row then see it \<^verbatim>\<open>OPEN\<close>, and each of them sends the seat-opened
  alert: the second observation of the same status is not silent.
\<close>

theorem poll_twice_fires_twice:
  "fst (add_tracked_class fetch_nothing (\<lambda>_. True) 1000 cse101_full state_empty) = state_no_tracker
   \<and> map kind (fst (snd (check_class_statuses fetch_open (\<lambda>_. True) (\<lambda>_. 2000) state_no_tracker))) = [''OPEN'']
   \<and> map kind (fst (snd (check_class_statuses fetch_open (\<lambda>_. True) (\<lambda>_. 3000)
        (fst (check_class_statuses fetch_open (\<lambda>_. True) (\<lambda>_. 2000) state_no_tracker))))) = [''OPEN'']"
  by (simp add: add_tracked_class_def perform_immediate_check_def fetch_nothing_def fetch_open_def
      check_class_statuses_def classes_to_fetch_def fresh_details_map_def
      observe_def tracker_update_def Let_def state_no_tracker_def state_empty_def cse101_open_def
      cse101_full_def initial_tracker_def settings0_def)

text \<open>
  The rising edge of a class that has a stored tracker: the tracker has a \<^verbatim>\<open>lastStatus\<close>
  other than \<^verbatim>\<open>OPEN\<close> and the class is observed \<^verbatim>\<open>OPEN\<close>. Exactly one call of
  \<^verbatim>\<open>send_notification\<close> is made, with reason \<^verbatim>\<open>OPEN\<close> and the fresh details, and the
  stored tracker becomes count 1, last sent at the time of the observation, last status
  \<^verbatim>\<open>OPEN\<close>.
\<close>

theorem observe_rising_edge:
  assumes "map_of (notify_tracker s) num = Some t"
    and "lastStatus t \<noteq> ''OPEN''"
    and "map_of fm num = Some d"
    and "status d = ''OPEN''"
  shows "snd (observe post fm now num s) = [Emission ''OPEN'' d (send_notification post s d ''OPEN'')]
    \<and> map_of (notify_tracker (fst (observe post fm now num s))) num
        = Some \<lparr>count = 1, lastSent = now, lastStatus = ''OPEN''\<rparr>"
  using assms
  by (simp add: observe_def tracker_update_def Let_def update_conv')

theorem observe_rising_edge_witness:
  "map_of (notify_tracker state_full) ''12345'' = Some initial_tracker
   \<and> lastStatus initial_tracker \<noteq> ''OPEN''
   \<and> status cse101_open = ''OPEN''
   \<and> snd (observe (\<lambda>_. True) [(''12345'', cse101_open)] 1700000000000 ''12345'' state_full)
     = [Emission ''OPEN'' cse101_open (send_notification (\<lambda>_. True) state_full cse101_open ''OPEN'')]
   \<and> map_of (notify_tracker
        (fst (observe (\<lambda>_. True) [(''12345'', cse101_open)] 1700000000000 ''12345'' state_full))) ''12345''
     = Some \<lparr>count = 1, lastSent = 1700000000000, lastStatus = ''OPEN''\<rparr>"
proof -
  have 1: "map_of (notify_tracker state_full) ''12345'' = Some initial_tracker"
    by (simp add: state_full_def)
  have 2: "lastStatus initial_tracker \<noteq> ''OPEN''"
    by (simp add: initial_tracker_def)
  have 3: "map_of [(''12345'', cse101_open)] ''12345'' = Some cse101_open"
    by simp
  have 4: "status cse101_open = ''OPEN''"
    by (simp add: cse101_open_def)
  show ?thesis
    using observe_rising_edge [OF 1 2 3 4] 1 2 4 by blast
qed

text \<open>
  Claim C2, at the input where the code departs from it. A tracked class without an
  entry of \<^verbatim>\<open>notify_tracker\<close> counts as full (the default of line 120). It is observed
  \<^verbatim>\<open>FULL\<close>, which changes nothing, and then \<^verbatim>\<open>OPEN\<close>: the seat-opened alert is sent
  once, but the tracker with count 1, the time of the observation and last status
  \<^verbatim>\<open>OPEN\<close> is not in \<^verbatim>\<open>notify_tracker\<close> afterwards.
\<close>

theorem rising_edge_without_tracker_not_recorded:
  "map_of (notify_tracker state_no_tracker) ''12345'' = None
   \<and> observe (\<lambda>_. True) [(''12345'', cse101_full)] 1000 ''12345'' state_no_tracker
       = (state_no_tracker, [])
   \<and> calls (snd (observe (\<lambda>_. True) [(''12345'', cse101_open)] 2000 ''12345''
        (fst (observe (\<lambda>_. True) [(''12345'', cse101_full)] 1000 ''12345'' state_no_tracker))))
       = [(''OPEN'', cse101_open)]
   \<and> map_of (notify_tracker
        (fst (observe (\<lambda>_. True) [(''12345'', cse101_open)] 2000 ''12345''
          (fst (observe (\<lambda>_. True) [(''12345'', cse101_full)] 1000 ''12345'' state_no_tracker)))))
        ''12345''
       \<noteq> Some \<lparr>count = 1, lastSent = 2000, lastStatus = ''OPEN''\<rparr>"
  by (simp add: observe_def tracker_update_def Let_def calls_def state_no_tracker_def
      cse101_open_def cse101_full_def initial_tracker_def)

text \<open>
  Claim C3: a class whose stored tracker has \<^verbatim>\<open>lastStatus\<close> \<^verbatim>\<open>OPEN\<close> is observed \<^verbatim>\<open>FULL\<close>.
  Exactly one call of \<^verbatim>\<open>send_notification\<close> is made, with reason \<^verbatim>\<open>FULL\<close>, and the
  stored tracker becomes count 0, last status \<^verbatim>\<open>FULL\<close>; the code resets \<^verbatim>\<open>lastSent\<close>
  to 0.
\<close>

theorem observe_falling_edge:
  assumes "map_of (notify_tracker s) num = Some t"
    and "lastStatus t = ''OPEN''"
    and "map_of fm num = Some d"
    and "status d = ''FULL''"
  shows "snd (observe post fm now num s) = [Emission ''FULL'' d (send_notification post s d ''FULL'')]
    \<and> map_of (notify_tracker (fst (observe post fm now num s))) num
        = Some \<lparr>count = 0, lastSent = 0, lastStatus = ''FULL''\<rparr>"
  using assms
  by (simp add: observe_def tracker_update_def Let_def update_conv')

theorem observe_falling_edge_witness:
  "map_of (notify_tracker state_open) ''12345''
     = Some \<lparr>count = 3, lastSent = 1000, lastStatus = ''OPEN''\<rparr>
   \<and> map_of [(''12345'', cse101_full)] ''12345'' = Some cse101_full
   \<and> status cse101_full = ''FULL''
   \<and> snd (observe (\<lambda>_. False) [(''12345'', cse101_full)] 5000 ''12345'' state_open)
     = [Emission ''FULL'' cse101_full (send_notification (\<lambda>_. False) state_open cse101_full ''FULL'')]
   \<and> map_of (notify_tracker
        (fst (observe (\<lambda>_. False) [(''12345'', cse101_full)] 5000 ''12345'' state_open))) ''12345''
     = Some \<lparr>count = 0, lastSent = 0, lastStatus = ''FULL''\<rparr>"
proof -
  have 1: "map_of (notify_tracker state_open) ''12345''
      = Some \<lparr>count = 3, lastSent = 1000, lastStatus = ''OPEN''\<rparr>"
    by (simp add: state_open_def)
  have 2: "lastStatus \<lparr>count = 3, lastSent = 1000, lastStatus = ''OPEN''\<rparr> = ''OPEN''"
    by simp
  have 3: "map_of [(''12345'', cse101_full)] ''12345'' = Some cse101_full"
    by simp
  have 4: "status cse101_full = ''FULL''"
    by (simp add: cse101_full_def)
  show ?thesis
    using observe_falling_edge [OF 1 2 3 4] 1 3 4 by blast
qed

text \<open>
  Claim C6, at the input where the code departs from it. The class has no entry of
  \<^verbatim>\<open>notify_tracker\<close> and is observed \<^verbatim>\<open>OPEN\<close>: the alert is sent, and afterwards the
  class still has no entry. The updates of lines 127-134 went to the dictionary built by
  the default of \<^verbatim>\<open>get\<close>, which is never put in \<^verbatim>\<open>notify_tracker\<close>.
\<close>

theorem observe_unmaterialized_not_stored:
  "map_of (notify_tracker state_no_tracker) ''12345'' = None
   \<and> map kind (snd (observe (\<lambda>_. True) [(''12345'', cse101_open)] 5000 ''12345'' state_no_tracker))
       = [''OPEN'']
   \<and> map_of (notify_tracker
        (fst (observe (\<lambda>_. True) [(''12345'', cse101_open)] 5000 ''12345'' state_no_tracker))) ''12345''
       = None"
  by (simp add: observe_def tracker_update_def Let_def state_no_tracker_def cse101_open_def
      cse101_full_def initial_tracker_def)

section \<open>The immediate check of a class that is added\<close>

text \<open>The loop of lines 90-101 in closed form: it acts on the first fetched entry with the
  class number, and does nothing when there is none.\<close>

lemma immediate_loop_not_found:
  "find (\<lambda>d. classNumber d = k) ds = None \<Longrightarrow> immediate_loop post now k ds s = (s, [])"
  by (induction ds) (auto split: if_splits)

lemma immediate_loop_found:
  "find (\<lambda>d. classNumber d = k) ds = Some d \<Longrightarrow>
    immediate_loop post now k ds s =
      (if status d = ''OPEN'' then
         (s\<lparr>tracked_classes := AList.update k d (tracked_classes s),
            notify_tracker := AList.update k \<lparr>count = 1, lastSent = now, lastStatus = ''OPEN''\<rparr>
              (notify_tracker s)\<rparr>,
          [Emission ''OPEN'' d (send_notification post s d ''OPEN'')])
       else
         (s\<lparr>tracked_classes := AList.update k d (tracked_classes s),
            notify_tracker := AList.update k initial_tracker (notify_tracker s)\<rparr>, []))"
  by (induction ds) (auto simp add: initial_tracker_def split: if_splits)

text \<open>
  Claim C8, as amended. When the fetched list holds no entry with the class number of the
  added class, the immediate check changes nothing and sends nothing: \<^verbatim>\<open>notify_tracker\<close>
  is left as it was, so a class without a tracker stays without one (the assignment of
  line 100 is inside the \<^verbatim>\<open>if\<close> of line 91 and is reached for a found class only).
\<close>

theorem immediate_check_not_found:
  assumes "fetch (className cd) (term_code (app_settings s)) = Inr ds"
    and "find (\<lambda>d. classNumber d = classNumber cd) ds = None"
  shows "perform_immediate_check fetch post now cd s = (s, [], None)"
  using assms by (simp add: perform_immediate_check_def immediate_loop_not_found)

theorem immediate_check_not_found_witness:
  "fetch_nothing (className cse101_full) (term_code (app_settings state_no_tracker)) = Inr []
   \<and> find (\<lambda>d. classNumber d = classNumber cse101_full) [] = None
   \<and> perform_immediate_check fetch_nothing (\<lambda>_. True) 1000 cse101_full state_no_tracker
       = (state_no_tracker, [], None)"
proof -
  have 1: "fetch_nothing (className cse101_full) (term_code (app_settings state_no_tracker)) = Inr []"
    by (simp add: fetch_nothing_def)
  have 2: "find (\<lambda>d. classNumber d = classNumber cse101_full) [] = None"
    by simp
  show ?thesis
    using immediate_check_not_found [where fetch = fetch_nothing and cd = cse101_full
        and s = state_no_tracker and ds = "[]" and post = "\<lambda>_. True" and now = 1000, OF 1 2] 1 2
    by blast
qed

text \<open>The claim as stated fails: after the immediate check of a class that the fetch does
  not report, the class has no initial tracker.\<close>

theorem immediate_check_not_found_no_tracker:
  "map_of (notify_tracker
     (fst (perform_immediate_check fetch_nothing (\<lambda>_. True) 1000 cse101_full state_no_tracker)))
     ''12345'' \<noteq> Some initial_tracker"
  by (simp add: perform_immediate_check_def fetch_nothing_def state_no_tracker_def)

text \<open>
  Claim C10, as amended. A class is added through \<^verbatim>\<open>add_tracked_class\<close> and the fetched
  list holds an entry with its class number. Whatever \<^verbatim>\<open>notify_tracker\<close> held for the
  class before, it now holds the initial tracker, or, when the fetched status is \<^verbatim>\<open>OPEN\<close>,
  the tracker of a fresh opening, and in that case the seat-opened alert is sent once more,
  also in the middle of an open streak.
\<close>

theorem readd_found_overwrites:
  assumes "classNumber cd \<noteq> []"
    and "fetch (className cd) (term_code (app_settings s)) = Inr ds"
    and "find (\<lambda>d. classNumber d = classNumber cd) ds = Some d"
  shows "map_of (notify_tracker (fst (add_tracked_class fetch post now cd s))) (classNumber cd)
      = Some (if status d = ''OPEN'' then \<lparr>count = 1, lastSent = now, lastStatus = ''OPEN''\<rparr>
              else initial_tracker)
    \<and> fst (snd (add_tracked_class fetch post now cd s))
      = (if status d = ''OPEN'' then [Emission ''OPEN'' d (send_notification post s d ''OPEN'')]
         else [])"
  using assms
  by (simp add: add_tracked_class_def perform_immediate_check_def immediate_loop_found Let_def
      update_conv')

text \<open>The overwriting is not unconditional: a class that is added again while the fetch
  does not report it keeps the tracker it had.\<close>

theorem readd_not_found_keeps_tracker:
  "map_of (notify_tracker
      (fst (add_tracked_class fetch_nothing (\<lambda>_. True) 5000 cse101_open state_open))) ''12345''
    = Some \<lparr>count = 3, lastSent = 1000, lastStatus = ''OPEN''\<rparr>"
  by (simp add: add_tracked_class_def perform_immediate_check_def fetch_nothing_def state_open_def
      cse101_open_def cse101_full_def Let_def)

theorem readd_found_overwrites_witness:
  "classNumber cse101_open \<noteq> []
   \<and> map_of (notify_tracker state_open) ''12345''
       = Some \<lparr>count = 3, lastSent = 1000, lastStatus = ''OPEN''\<rparr>
   \<and> map_of (notify_tracker
        (fst (add_tracked_class fetch_open (\<lambda>_. True) 5000 cse101_open state_open))) ''12345''
       = Some \<lparr>count = 1, lastSent = 5000, lastStatus = ''OPEN''\<rparr>
   \<and> fst (snd (add_tracked_class fetch_open (\<lambda>_. True) 5000 cse101_open state_open))
       = [Emission ''OPEN'' cse101_open (send_notification (\<lambda>_. True) state_open cse101_open ''OPEN'')]"
proof -
  have 1: "classNumber cse101_open \<noteq> []"
    by (simp add: cse101_open_def cse101_full_def)
  have 2: "fetch_open (className cse101_open) (term_code (app_settings state_open)) = Inr [cse101_open]"
    by (simp add: fetch_open_def)
  have 3: "find (\<lambda>d. classNumber d = classNumber cse101_open) [cse101_open] = Some cse101_open"
    by simp
  have 4: "status cse101_open = ''OPEN''"
    by (simp add: cse101_open_def)
  have 5: "classNumber cse101_open = ''12345''"
    by (simp add: cse101_open_def cse101_full_def)
  have 6: "map_of (notify_tracker state_open) ''12345''
       = Some \<lparr>count = 3, lastSent = 1000, lastStatus = ''OPEN''\<rparr>"
    by (simp add: state_open_def)
  show ?thesis
    using readd_found_overwrites [where fetch = fetch_open and cd = cse101_open and s = state_open
        and ds = "[cse101_open]" and d = cse101_open and post = "\<lambda>_. True" and now = 5000, OF 1 2 3]
      1 4 5 6
    by simp
qed

section \<open>Delivery failures\<close>

text \<open>No operation reads how a call of \<^verbatim>\<open>send_notification\<close> ended: the state it
  leaves and the calls it makes are the same under any two behaviours of the network.\<close>

lemma observe_any_post:
  "fst (observe post fm now num s) = fst (observe post' fm now num s)
   \<and> calls (snd (observe post fm now num s)) = calls (snd (observe post' fm now num s))"
  by (simp add: observe_def Let_def calls_def split: option.split)

lemma calls_append: "calls (xs @ ys) = calls xs @ calls ys"
  by (simp add: calls_def)

lemma check_numbers_any_post:
  "fst (check_numbers post fm clock numbers s) = fst (check_numbers post' fm clock numbers s)
   \<and> calls (snd (check_numbers post fm clock numbers s))
     = calls (snd (check_numbers post' fm clock numbers s))"
proof (induction numbers arbitrary: s)
  case Nil
  show ?case by simp
next
  case (Cons num numbers)
  from observe_any_post [of post fm "clock num" num s post']
  show ?case
    using Cons.IH [of "fst (observe post' fm (clock num) num s)"]
    by (simp add: split_beta calls_append)
qed

lemma check_groups_any_post:
  "fst (check_groups fetch post clock groups s) = fst (check_groups fetch post' clock groups s)
   \<and> calls (fst (snd (check_groups fetch post clock groups s)))
     = calls (fst (snd (check_groups fetch post' clock groups s)))
   \<and> snd (snd (check_groups fetch post clock groups s))
     = snd (snd (check_groups fetch post' clock groups s))"
proof (induction groups arbitrary: s)
  case Nil
  show ?case by simp
next
  case (Cons g groups)
  obtain class_name numbers where g: "g = (class_name, numbers)"
    by (cases g)
  show ?case
  proof (cases "fetch class_name (term_code (app_settings s))")
    case (Inl e)
    with g show ?thesis by simp
  next
    case (Inr ds)
    from check_numbers_any_post [of post "fresh_details_map ds" clock numbers s post']
    show ?thesis
      using g Inr Cons.IH [of "fst (check_numbers post' (fresh_details_map ds) clock numbers s)"]
      by (simp add: split_beta calls_append)
  qed
qed

lemma reminder_loop_any_post:
  "fst (reminder_loop post now items s) = fst (reminder_loop post' now items s)
   \<and> calls (snd (reminder_loop post now items s)) = calls (snd (reminder_loop post' now items s))"
proof (induction items arbitrary: s)
  case Nil
  show ?case by simp
next
  case (Cons item items)
  obtain num tracker where item: "item = (num, tracker)"
    by (cases item)
  show ?case
    using item Cons.IH
    by (auto simp add: split_beta calls_def Let_def split: option.split)
qed

lemma immediate_loop_any_post:
  "fst (immediate_loop post now k ds s) = fst (immediate_loop post' now k ds s)
   \<and> calls (snd (immediate_loop post now k ds s)) = calls (snd (immediate_loop post' now k ds s))"
  by (induction ds) (simp_all add: calls_def Let_def)

text \<open>
  Claim C9: under any behaviour \<open>post\<close> of the notifier, failing deliveries included, a
  polling cycle, a reminder check and an add request leave the state that they leave when
  every delivery succeeds (so \<^verbatim>\<open>lastStatus\<close>, \<^verbatim>\<open>count\<close> and \<^verbatim>\<open>lastSent\<close> of every
  tracker are as after a delivered alert), make the same calls of \<^verbatim>\<open>send_notification\<close>,
  and end the same way: a delivery failure raises nothing in the caller.
\<close>

theorem delivery_failure_keeps_bookkeeping:
  "fst (check_class_statuses fetch post clock s) = fst (check_class_statuses fetch (\<lambda>_. True) clock s)
   \<and> calls (fst (snd (check_class_statuses fetch post clock s)))
     = calls (fst (snd (check_class_statuses fetch (\<lambda>_. True) clock s)))
   \<and> snd (snd (check_class_statuses fetch post clock s))
     = snd (snd (check_class_statuses fetch (\<lambda>_. True) clock s))
   \<and> fst (hourly_reminder_check post now s) = fst (hourly_reminder_check (\<lambda>_. True) now s)
   \<and> calls (snd (hourly_reminder_check post now s))
     = calls (snd (hourly_reminder_check (\<lambda>_. True) now s))
   \<and> fst (add_tracked_class fetch post now cd s) = fst (add_tracked_class fetch (\<lambda>_. True) now cd s)
   \<and> calls (fst (snd (add_tracked_class fetch post now cd s)))
     = calls (fst (snd (add_tracked_class fetch (\<lambda>_. True) now cd s)))
   \<and> snd (snd (add_tracked_class fetch post now cd s))
     = snd (snd (add_tracked_class fetch (\<lambda>_. True) now cd s))"
proof -
  have poll: "fst (check_class_statuses fetch post clock s)
        = fst (check_class_statuses fetch (\<lambda>_. True) clock s)
      \<and> calls (fst (snd (check_class_statuses fetch post clock s)))
        = calls (fst (snd (check_class_statuses fetch (\<lambda>_. True) clock s)))
      \<and> snd (snd (check_class_statuses fetch post clock s))
        = snd (snd (check_class_statuses fetch (\<lambda>_. True) clock s))"
    using check_groups_any_post [of fetch post clock "classes_to_fetch (tracked_classes s)" s "\<lambda>_. True"]
    by (simp add: check_class_statuses_def)
  have tick: "fst (hourly_reminder_check post now s) = fst (hourly_reminder_check (\<lambda>_. True) now s)
      \<and> calls (snd (hourly_reminder_check post now s))
        = calls (snd (hourly_reminder_check (\<lambda>_. True) now s))"
    using reminder_loop_any_post [of post now "notify_tracker s" s "\<lambda>_. True"]
    by (simp add: hourly_reminder_check_def)
  have add: "fst (add_tracked_class fetch post now cd s) = fst (add_tracked_class fetch (\<lambda>_. True) now cd s)
      \<and> calls (fst (snd (add_tracked_class fetch post now cd s)))
        = calls (fst (snd (add_tracked_class fetch (\<lambda>_. True) now cd s)))
      \<and> snd (snd (add_tracked_class fetch post now cd s))
        = snd (snd (add_tracked_class fetch (\<lambda>_. True) now cd s))"
  proof (cases "fetch (className cd) (term_code (app_settings s))")
    case (Inl e)
    then show ?thesis
      by (simp add: add_tracked_class_def perform_immediate_check_def Let_def calls_def)
  next
    case (Inr ds)
    from immediate_loop_any_post [of post now "classNumber cd" ds
        "s\<lparr>tracked_classes := AList.update (classNumber cd) cd (tracked_classes s)\<rparr>" "\<lambda>_. True"]
    show ?thesis
      using Inr
      by (simp add: add_tracked_class_def perform_immediate_check_def Let_def calls_def split_beta)
  qed
  from poll tick add show ?thesis by blast
qed

theorem delivery_failure_keeps_bookkeeping_witness:
  "fst (check_class_statuses fetch_open (\<lambda>_. False) (\<lambda>_. 2000) state_full)
     = fst (check_class_statuses fetch_open (\<lambda>_. True) (\<lambda>_. 2000) state_full)
   \<and> map_of (notify_tracker (fst (check_class_statuses fetch_open (\<lambda>_. False) (\<lambda>_. 2000) state_full)))
       ''12345'' = Some \<lparr>count = 1, lastSent = 2000, lastStatus = ''OPEN''\<rparr>
   \<and> map outcome (fst (snd (check_class_statuses fetch_open (\<lambda>_. False) (\<lambda>_. 2000) state_full)))
       = [Send_error \<lparr>topic = ''susumaanclassalerts'', heading = ''Seat Open: CSE 101'',
            reason_of = ''OPEN'', shown = None, about = cse101_open\<rparr>]
   \<and> snd (snd (check_class_statuses fetch_open (\<lambda>_. False) (\<lambda>_. 2000) state_full)) = None"
proof -
  have same: "fst (check_class_statuses fetch_open (\<lambda>_. False) (\<lambda>_. 2000) state_full)
     = fst (check_class_statuses fetch_open (\<lambda>_. True) (\<lambda>_. 2000) state_full)"
    using delivery_failure_keeps_bookkeeping [of fetch_open "\<lambda>_. False" "\<lambda>_. 2000" state_full]
    by blast
  have run: "check_class_statuses fetch_open (\<lambda>_. False) (\<lambda>_. 2000) state_full
     = (\<lparr>tracked_classes = [(''12345'', cse101_open)], app_settings = settings0,
         notify_tracker = [(''12345'', \<lparr>count = 1, lastSent = 2000, lastStatus = ''OPEN''\<rparr>)]\<rparr>,
        [Emission ''OPEN'' cse101_open
          (Send_error \<lparr>topic = ''susumaanclassalerts'', heading = ''Seat Open: CSE 101'',
            reason_of = ''OPEN'', shown = None, about = cse101_open\<rparr>)], None)"
    by (simp add: check_class_statuses_def classes_to_fetch_def fresh_details_map_def fetch_open_def
        observe_def tracker_update_def Let_def state_full_def cse101_open_def send_notification_def
        cse101_full_def initial_tracker_def settings0_def)
  have rest: "map_of (notify_tracker (fst (check_class_statuses fetch_open (\<lambda>_. False) (\<lambda>_. 2000) state_full)))
       ''12345'' = Some \<lparr>count = 1, lastSent = 2000, lastStatus = ''OPEN''\<rparr>
   \<and> map outcome (fst (snd (check_class_statuses fetch_open (\<lambda>_. False) (\<lambda>_. 2000) state_full)))
       = [Send_error \<lparr>topic = ''susumaanclassalerts'', heading = ''Seat Open: CSE 101'',
            reason_of = ''OPEN'', shown = None, about = cse101_open\<rparr>]
   \<and> snd (snd (check_class_statuses fetch_open (\<lambda>_. False) (\<lambda>_. 2000) state_full)) = None"
    by (simp add: run)
  from same rest show ?thesis by blast
qed

section \<open>The reminder check, class by class\<close>

text \<open>Details stored in a well-formed \<^verbatim>\<open>tracked_classes\<close> carry the key they are stored
  under.\<close>

lemma keys_match_lookup:
  "keys_match tc \<Longrightarrow> map_of tc k = Some d \<Longrightarrow> classNumber d = k"
  by (auto simp add: keys_match_def list_all_iff dest: map_of_SomeD)

text \<open>An update of the tracker of one class does not change what is sent about another
  class.\<close>

lemma send_notification_other_tracker:
  "classNumber d \<noteq> num \<Longrightarrow>
    send_notification post (s\<lparr>notify_tracker := AList.update num t (notify_tracker s)\<rparr>) d reason
      = send_notification post s d reason"
  by (simp add: send_notification_def Let_def update_conv')

text \<open>The loop changes \<^verbatim>\<open>notify_tracker\<close> only.\<close>

lemma reminder_loop_frame:
  "tracked_classes (fst (reminder_loop post now items s)) = tracked_classes s
   \<and> app_settings (fst (reminder_loop post now items s)) = app_settings s"
proof (induction items arbitrary: s)
  case Nil
  show ?case by simp
next
  case (Cons item items)
  obtain num tracker where item: "item = (num, tracker)"
    by (cases item)
  show ?case
    using item Cons.IH
    by (auto simp add: split_beta Let_def split: option.split)
qed

text \<open>The tracker of a class after the loop over items with distinct keys: incremented and
  stamped when the class is an item that is due, and as before otherwise.\<close>

lemma reminder_loop_tracker:
  "distinct (map fst items) \<Longrightarrow>
    map_of (notify_tracker (fst (reminder_loop post now items s))) k =
      (case map_of items k of
         None \<Rightarrow> map_of (notify_tracker s) k
       | Some t \<Rightarrow>
           if reminder_due (tracked_classes s) now k t
           then Some (t\<lparr>count := count t + 1, lastSent := now\<rparr>)
           else map_of (notify_tracker s) k)"
proof (induction items arbitrary: s)
  case Nil
  show ?case by simp
next
  case (Cons item items)
  obtain num tracker where item: "item = (num, tracker)"
    by (cases item)
  from Cons.prems item have fresh: "map_of items num = None" and dist: "distinct (map fst items)"
    by (simp_all add: map_of_eq_None_iff)
  note IH = Cons.IH [OF dist]
  show ?case
  proof (cases "reminder_due (tracked_classes s) now num tracker")
    case True
    then obtain d where d: "map_of (tracked_classes s) num = Some d" "status d = ''OPEN''"
      and c: "0 < count tracker" "count tracker < MAX_NOTIFICATIONS"
        "now - lastSent tracker \<ge> NOTIFICATION_INTERVAL_HOURS * 60 * 60 * 1000"
      by (auto simp add: reminder_due_def split: option.splits)
    show ?thesis
      using item d c True fresh
        IH [of "s\<lparr>notify_tracker := AList.update num
              (tracker\<lparr>count := count tracker + 1, lastSent := now\<rparr>) (notify_tracker s)\<rparr>"]
      by (simp add: split_beta Let_def update_conv' split: option.split)
  next
    case False
    then have "reminder_loop post now (item # items) s = reminder_loop post now items s"
      using item by (auto simp add: reminder_due_def split: option.splits)
    then show ?thesis
      using item False fresh IH [of s] by (simp split: option.split)
  qed
qed

text \<open>The calls about a class made by the loop: one reminder when the class is an item
  that is due, none otherwise. The reminder is rendered as in the state before the loop,
  since the earlier iterations have updated the trackers of other classes only.\<close>

lemma reminder_loop_emissions:
  "distinct (map fst items) \<Longrightarrow> keys_match (tracked_classes s) \<Longrightarrow>
    emissions_for k (snd (reminder_loop post now items s)) =
      (case map_of items k of
         None \<Rightarrow> []
       | Some t \<Rightarrow>
           if reminder_due (tracked_classes s) now k t
           then [Emission ''REMINDER'' (the (map_of (tracked_classes s) k))
                   (send_notification post s (the (map_of (tracked_classes s) k)) ''REMINDER'')]
           else [])"
proof (induction items arbitrary: s)
  case Nil
  show ?case by (simp add: emissions_for_def)
next
  case (Cons item items)
  obtain num tracker where item: "item = (num, tracker)"
    by (cases item)
  from Cons.prems item have fresh: "map_of items num = None" and dist: "distinct (map fst items)"
    by (simp_all add: map_of_eq_None_iff)
  show ?case
  proof (cases "reminder_due (tracked_classes s) now num tracker")
    case True
    then obtain d where d: "map_of (tracked_classes s) num = Some d" "status d = ''OPEN''"
      and c: "0 < count tracker" "count tracker < MAX_NOTIFICATIONS"
        "now - lastSent tracker \<ge> NOTIFICATION_INTERVAL_HOURS * 60 * 60 * 1000"
      by (auto simp add: reminder_due_def split: option.splits)
    define s1 where "s1 = s\<lparr>notify_tracker := AList.update num
              (tracker\<lparr>count := count tracker + 1, lastSent := now\<rparr>) (notify_tracker s)\<rparr>"
    have km: "keys_match (tracked_classes s1)"
      using Cons.prems(2) by (simp add: s1_def)
    have dnum: "classNumber d = num"
      using keys_match_lookup [OF Cons.prems(2) d(1)] .
    have unfold: "reminder_loop post now (item # items) s =
        (fst (reminder_loop post now items s1),
         Emission ''REMINDER'' d (send_notification post s d ''REMINDER'')
           # snd (reminder_loop post now items s1))"
      using item d c by (simp add: split_beta Let_def s1_def)
    have tc: "tracked_classes s1 = tracked_classes s"
      by (simp add: s1_def)
    note IH = Cons.IH [OF dist km, unfolded tc]
    show ?thesis
    proof (cases "k = num")
      case True
      with fresh item d dnum \<open>reminder_due (tracked_classes s) now num tracker\<close> IH unfold
      show ?thesis
        by (simp add: emissions_for_def)
    next
      case False
      have other: "\<And>d'. map_of (tracked_classes s) k = Some d' \<Longrightarrow>
          send_notification post s1 d' ''REMINDER'' = send_notification post s d' ''REMINDER''"
        using False keys_match_lookup [OF Cons.prems(2)]
        by (simp add: s1_def send_notification_other_tracker)
      have "emissions_for k (snd (reminder_loop post now (item # items) s))
          = emissions_for k (snd (reminder_loop post now items s1))"
        using unfold dnum False by (simp add: emissions_for_def)
      also have "\<dots> = (case map_of items k of
         None \<Rightarrow> []
       | Some t \<Rightarrow>
           if reminder_due (tracked_classes s) now k t
           then [Emission ''REMINDER'' (the (map_of (tracked_classes s) k))
                   (send_notification post s1 (the (map_of (tracked_classes s) k)) ''REMINDER'')]
           else [])"
        using IH by simp
      also have "\<dots> = (case map_of items k of
         None \<Rightarrow> []
       | Some t \<Rightarrow>
           if reminder_due (tracked_classes s) now k t
           then [Emission ''REMINDER'' (the (map_of (tracked_classes s) k))
                   (send_notification post s (the (map_of (tracked_classes s) k)) ''REMINDER'')]
           else [])"
        using other by (auto simp add: reminder_due_def split: option.splits)
      finally show ?thesis
        using item False by simp
    qed
  next
    case False
    then have "reminder_loop post now (item # items) s = reminder_loop post now items s"
      using item by (auto simp add: reminder_due_def split: option.splits)
    then show ?thesis
      using item False fresh Cons.IH [OF dist Cons.prems(2)] by (simp split: option.split)
  qed
qed

text \<open>A reminder displays the count stored for the class when it is sent.\<close>

lemma send_notification_displayed:
  "ntfyTopic (app_settings s) \<noteq> [] \<Longrightarrow> map_of (notify_tracker s) (classNumber d) = Some t \<Longrightarrow>
    displayed (send_notification post s d ''REMINDER'') = Some (count t, MAX_NOTIFICATIONS)"
  by (simp add: send_notification_def Let_def)

text \<open>
  Claim C4: one run of \<^verbatim>\<open>hourly_reminder_check\<close> at the time \<open>now\<close>, for a class with the
  stored tracker \<open>t\<close>. A reminder about the class is sent if and only if the class has a
  snapshot with status \<^verbatim>\<open>OPEN\<close>, the count is strictly between 0 and 10, and at least
  3600000 milliseconds have passed since \<^verbatim>\<open>lastSent\<close>. Then it is the only call about
  the class, it displays the count as it was before the increment (when a topic is set,
  so that a message is rendered at all), the count goes up by one and \<^verbatim>\<open>lastSent\<close> becomes
  \<open>now\<close>. Otherwise there is no call about the class and its tracker is as before.
\<close>

theorem hourly_reminder_check_entity:
  assumes "distinct (map fst (notify_tracker s))"
    and "keys_match (tracked_classes s)"
    and "map_of (notify_tracker s) num = Some t"
  shows "(case map_of (tracked_classes s) num of
       None \<Rightarrow>
         emissions_for num (snd (hourly_reminder_check post now s)) = []
         \<and> map_of (notify_tracker (fst (hourly_reminder_check post now s))) num = Some t
     | Some d \<Rightarrow>
         if status d = ''OPEN'' \<and> 0 < count t \<and> count t < 10 \<and> now - lastSent t \<ge> 3600000
         then emissions_for num (snd (hourly_reminder_check post now s))
                = [Emission ''REMINDER'' d (send_notification post s d ''REMINDER'')]
           \<and> (ntfyTopic (app_settings s) \<noteq> [] \<longrightarrow>
                displayed (send_notification post s d ''REMINDER'') = Some (count t, 10))
           \<and> map_of (notify_tracker (fst (hourly_reminder_check post now s))) num
                = Some (t\<lparr>count := count t + 1, lastSent := now\<rparr>)
         else emissions_for num (snd (hourly_reminder_check post now s)) = []
           \<and> map_of (notify_tracker (fst (hourly_reminder_check post now s))) num = Some t)"
proof -
  note em = reminder_loop_emissions [OF assms(1) assms(2), of num post now]
  note tr = reminder_loop_tracker [OF assms(1), of post now s num]
  show ?thesis
  proof (cases "map_of (tracked_classes s) num")
    case None
    with em tr assms(3) show ?thesis
      by (simp add: hourly_reminder_check_def reminder_due_def)
  next
    case (Some d)
    have dnum: "classNumber d = num"
      using keys_match_lookup [OF assms(2) Some] .
    have shown: "ntfyTopic (app_settings s) \<noteq> [] \<longrightarrow>
        displayed (send_notification post s d ''REMINDER'') = Some (count t, 10)"
      using send_notification_displayed [of s d t post] assms(3) dnum
      by (simp add: MAX_NOTIFICATIONS_def)
    from em tr assms(3) Some shown show ?thesis
      by (simp add: hourly_reminder_check_def reminder_due_def MAX_NOTIFICATIONS_def
          NOTIFICATION_INTERVAL_HOURS_def)
  qed
qed

theorem hourly_reminder_check_entity_witness:
  "distinct (map fst (notify_tracker state_opened))
   \<and> keys_match (tracked_classes state_opened)
   \<and> map_of (notify_tracker state_opened) ''12345''
       = Some \<lparr>count = 1, lastSent = 1000, lastStatus = ''OPEN''\<rparr>
   \<and> emissions_for ''12345'' (snd (hourly_reminder_check (\<lambda>_. True) 3601000 state_opened))
       = [Emission ''REMINDER'' cse101_open
            (send_notification (\<lambda>_. True) state_opened cse101_open ''REMINDER'')]
   \<and> displayed (send_notification (\<lambda>_. True) state_opened cse101_open ''REMINDER'') = Some (1, 10)
   \<and> map_of (notify_tracker (fst (hourly_reminder_check (\<lambda>_. True) 3601000 state_opened))) ''12345''
       = Some \<lparr>count = 2, lastSent = 3601000, lastStatus = ''OPEN''\<rparr>"
proof -
  have 1: "distinct (map fst (notify_tracker state_opened))"
    by (simp add: state_opened_def)
  have 2: "keys_match (tracked_classes state_opened)"
    by (simp add: state_opened_def keys_match_def cse101_open_def cse101_full_def)
  have 3: "map_of (notify_tracker state_opened) ''12345''
       = Some \<lparr>count = 1, lastSent = 1000, lastStatus = ''OPEN''\<rparr>"
    by (simp add: state_opened_def)
  have 4: "map_of (tracked_classes state_opened) ''12345'' = Some cse101_open"
    by (simp add: state_opened_def)
  have 5: "status cse101_open = ''OPEN''"
    by (simp add: cse101_open_def)
  have 6: "ntfyTopic (app_settings state_opened) \<noteq> []"
    by (simp add: state_opened_def settings0_def)
  show ?thesis
    using hourly_reminder_check_entity [OF 1 2 3, of "\<lambda>_. True" 3601000] 1 2 3 4 5 6
    by simp
qed

section \<open>Invariants of observations and reminder checks\<close>

text \<open>Assignments keep the well-formedness of the dictionaries.\<close>

lemma keys_match_update:
  "keys_match tc \<Longrightarrow> classNumber d = k \<Longrightarrow> keys_match (AList.update k d tc)"
  by (induction tc) (auto simp add: keys_match_def)

lemma keys_match_foldl:
  "keys_match m \<Longrightarrow> keys_match (foldl (\<lambda>m d. AList.update (classNumber d) d m) m ds)"
  by (induction ds arbitrary: m) (simp_all add: keys_match_update)

lemma fresh_details_map_key:
  "map_of (fresh_details_map ds) num = Some d \<Longrightarrow> classNumber d = num"
proof -
  have "keys_match (fresh_details_map ds)"
    unfolding fresh_details_map_def by (rule keys_match_foldl) (simp add: keys_match_def)
  then show "map_of (fresh_details_map ds) num = Some d \<Longrightarrow> classNumber d = num"
    by (rule keys_match_lookup)
qed

lemma counts_ok_update:
  "counts_ok nt \<Longrightarrow> 0 \<le> count t \<Longrightarrow> count t \<le> MAX_NOTIFICATIONS
    \<Longrightarrow> counts_ok (AList.update k t nt)"
  by (induction nt) (auto simp add: counts_ok_def)

lemma counts_ok_lookup:
  "counts_ok nt \<Longrightarrow> map_of nt k = Some t \<Longrightarrow> 0 \<le> count t \<and> count t \<le> MAX_NOTIFICATIONS"
  by (auto simp add: counts_ok_def list_all_iff dest: map_of_SomeD)

lemma stored_after_update:
  "map_of nt k \<noteq> None \<Longrightarrow> map_of (AList.update k' t nt) k \<noteq> None"
  by (simp add: update_conv')

subsection \<open>One observation\<close>

text \<open>An observation keeps the invariants, keeps the stored trackers stored, touches the
  tracker of the observed class only, and sends no reminder.\<close>

lemma observe_frame:
  "app_settings (fst (observe post fm now k s)) = app_settings s"
  by (simp add: observe_def tracker_update_def Let_def split: option.split)

lemma observe_distinct:
  "distinct (map fst (notify_tracker s)) \<Longrightarrow>
    distinct (map fst (notify_tracker (fst (observe post fm now k s))))"
  by (simp add: observe_def tracker_update_def Let_def distinct_update split: option.split)

lemma observe_keys_match:
  assumes "keys_match (tracked_classes s)"
    and "\<And>d. map_of fm k = Some d \<Longrightarrow> classNumber d = k"
  shows "keys_match (tracked_classes (fst (observe post fm now k s)))"
  using assms
  by (simp add: observe_def tracker_update_def Let_def keys_match_update split: option.split)

lemma observe_counts_ok:
  assumes "counts_ok (notify_tracker s)"
  shows "counts_ok (notify_tracker (fst (observe post fm now k s)))"
proof (cases "map_of (notify_tracker s) k")
  case None
  with assms show ?thesis
    by (simp add: observe_def tracker_update_def Let_def split: option.split)
next
  case (Some t)
  with assms have "0 \<le> count t \<and> count t \<le> MAX_NOTIFICATIONS"
    by (simp add: counts_ok_lookup)
  with assms Some show ?thesis
    by (simp add: observe_def tracker_update_def Let_def counts_ok_update MAX_NOTIFICATIONS_def
        split: option.split)
qed

lemma observe_stored:
  "map_of (notify_tracker s) num \<noteq> None \<Longrightarrow>
    map_of (notify_tracker (fst (observe post fm now k s))) num \<noteq> None"
  by (auto simp add: observe_def tracker_update_def Let_def update_conv' split: option.split)

lemma observe_other_tracker:
  "k \<noteq> num \<Longrightarrow>
    map_of (notify_tracker (fst (observe post fm now k s))) num = map_of (notify_tracker s) num"
  by (simp add: observe_def tracker_update_def Let_def update_conv' split: option.split)

lemma observe_no_reminder:
  "reminders_for num (snd (observe post fm now k s)) = []"
  by (simp add: observe_def Let_def reminders_for_def split: option.split)

subsection \<open>One reminder check\<close>

text \<open>The loop keeps the invariants (the increment is guarded by \<^verbatim>\<open>count < MAX_NOTIFICATIONS\<close>),
  and every call it makes is a reminder.\<close>

lemma reminder_loop_distinct:
  "distinct (map fst (notify_tracker s)) \<Longrightarrow>
    distinct (map fst (notify_tracker (fst (reminder_loop post now items s))))"
proof (induction items arbitrary: s)
  case Nil
  then show ?case by simp
next
  case (Cons item items)
  obtain num tracker where item: "item = (num, tracker)"
    by (cases item)
  show ?case
    using item Cons.prems Cons.IH
    by (auto simp add: split_beta Let_def distinct_update split: option.split)
qed

lemma reminder_loop_counts_ok:
  "counts_ok (notify_tracker s) \<Longrightarrow>
    counts_ok (notify_tracker (fst (reminder_loop post now items s)))"
proof (induction items arbitrary: s)
  case Nil
  then show ?case by simp
next
  case (Cons item items)
  obtain num tracker where item: "item = (num, tracker)"
    by (cases item)
  show ?case
    using item Cons.prems Cons.IH
    by (auto simp add: split_beta Let_def counts_ok_update split: option.split)
qed

lemma reminder_loop_kinds:
  "reminders_for num (snd (reminder_loop post now items s))
    = emissions_for num (snd (reminder_loop post now items s))"
proof (induction items arbitrary: s)
  case Nil
  show ?case by (simp add: reminders_for_def emissions_for_def)
next
  case (Cons item items)
  obtain k tracker where item: "item = (k, tracker)"
    by (cases item)
  show ?case
    using item Cons.IH
    by (auto simp add: split_beta Let_def reminders_for_def emissions_for_def split: option.split)
qed


subsection \<open>One operation\<close>

lemma hourly_reminder_check_stored:
  "distinct (map fst (notify_tracker s)) \<Longrightarrow> map_of (notify_tracker s) num \<noteq> None \<Longrightarrow>
    map_of (notify_tracker (fst (hourly_reminder_check post now s))) num \<noteq> None"
  by (auto simp add: hourly_reminder_check_def reminder_loop_tracker)

lemma step_invariants:
  assumes "distinct (map fst (notify_tracker s))"
    and "keys_match (tracked_classes s)"
    and "counts_ok (notify_tracker s)"
  shows "distinct (map fst (notify_tracker (fst (step post x s))))
    \<and> keys_match (tracked_classes (fst (step post x s)))
    \<and> counts_ok (notify_tracker (fst (step post x s)))"
proof (cases x)
  case (Observe ds now k)
  with assms show ?thesis
    by (simp add: observe_distinct observe_counts_ok observe_keys_match fresh_details_map_key)
next
  case (Tick now)
  with assms show ?thesis
    by (simp add: hourly_reminder_check_def reminder_loop_distinct reminder_loop_counts_ok
        reminder_loop_frame)
qed

lemma step_stored:
  assumes "distinct (map fst (notify_tracker s))"
    and "map_of (notify_tracker s) num \<noteq> None"
  shows "map_of (notify_tracker (fst (step post x s))) num \<noteq> None"
  using assms by (cases x) (simp_all add: observe_stored hourly_reminder_check_stored)

text \<open>During an open streak every operation leaves the tracker open and adds to its count
  the number of reminders it has sent about the class.\<close>

lemma step_streak:
  assumes dist: "distinct (map fst (notify_tracker s))"
    and km: "keys_match (tracked_classes s)"
    and stored: "map_of (notify_tracker s) num = Some t"
    and opened: "lastStatus t = ''OPEN''"
    and streak: "stays_open num x"
  shows "\<exists>t'. map_of (notify_tracker (fst (step post x s))) num = Some t'
    \<and> lastStatus t' = ''OPEN''
    \<and> count t' = count t + int (length (reminders_for num (snd (step post x s))))"
proof (cases x)
  case (Tick now)
  note tr = reminder_loop_tracker [OF dist, of post now s num]
  note em = reminder_loop_emissions [OF dist km, of num post now]
  show ?thesis
    using Tick tr em stored opened
    by (simp add: hourly_reminder_check_def reminder_loop_kinds)
next
  case (Observe ds now k)
  show ?thesis
  proof (cases "map_of (fresh_details_map ds) k")
    case None
    then have "observe post (fresh_details_map ds) now k s = (s, [])"
      by (simp add: observe_def)
    with Observe stored opened show ?thesis
      by (simp add: reminders_for_def)
  next
    case (Some d)
    show ?thesis
    proof (cases "k = num")
      case True
      with streak Observe Some opened have "status d = lastStatus t"
        by simp
      from observe_same_status [OF stored Some [unfolded True] this, of post now]
      show ?thesis
        using Observe True stored opened by (simp add: reminders_for_def)
    next
      case False
      with Observe stored opened show ?thesis
        by (simp add: observe_other_tracker observe_no_reminder)
    qed
  qed
qed

subsection \<open>Sequences of operations\<close>

lemma run_invariants:
  assumes "distinct (map fst (notify_tracker s))"
    and "keys_match (tracked_classes s)"
    and "counts_ok (notify_tracker s)"
  shows "distinct (map fst (notify_tracker (fst (run post xs s))))
    \<and> keys_match (tracked_classes (fst (run post xs s)))
    \<and> counts_ok (notify_tracker (fst (run post xs s)))"
  using assms
proof (induction xs arbitrary: s)
  case Nil
  then show ?case by simp
next
  case (Cons x xs)
  from step_invariants [OF Cons.prems, of post x]
  have "distinct (map fst (notify_tracker (fst (step post x s))))"
    and "keys_match (tracked_classes (fst (step post x s)))"
    and "counts_ok (notify_tracker (fst (step post x s)))"
    by simp_all
  from Cons.IH [OF this] show ?case
    by (simp add: split_beta)
qed

lemma run_stored:
  assumes "distinct (map fst (notify_tracker s))"
    and "keys_match (tracked_classes s)"
    and "counts_ok (notify_tracker s)"
    and "map_of (notify_tracker s) num \<noteq> None"
  shows "map_of (notify_tracker (fst (run post xs s))) num \<noteq> None"
  using assms
proof (induction xs arbitrary: s)
  case Nil
  then show ?case by simp
next
  case (Cons x xs)
  from step_invariants [OF Cons.prems(1-3), of post x]
  have inv: "distinct (map fst (notify_tracker (fst (step post x s))))"
    "keys_match (tracked_classes (fst (step post x s)))"
    "counts_ok (notify_tracker (fst (step post x s)))"
    by simp_all
  from step_stored [OF Cons.prems(1) Cons.prems(4), of post x]
  have "map_of (notify_tracker (fst (step post x s))) num \<noteq> None" .
  from Cons.IH [OF inv this] show ?case
    by (simp add: split_beta)
qed

lemma reminders_for_append:
  "reminders_for num (xs @ ys) = reminders_for num xs @ reminders_for num ys"
  by (simp add: reminders_for_def)

lemma run_streak:
  assumes "distinct (map fst (notify_tracker s))"
    and "keys_match (tracked_classes s)"
    and "counts_ok (notify_tracker s)"
    and "map_of (notify_tracker s) num = Some t"
    and "lastStatus t = ''OPEN''"
    and "list_all (stays_open num) xs"
  shows "\<exists>t'. map_of (notify_tracker (fst (run post xs s))) num = Some t'
    \<and> lastStatus t' = ''OPEN''
    \<and> count t' = count t + int (length (reminders_for num (snd (run post xs s))))"
  using assms
proof (induction xs arbitrary: s t)
  case Nil
  then show ?case by (simp add: reminders_for_def)
next
  case (Cons x xs)
  from Cons.prems(6) have now: "stays_open num x" and later: "list_all (stays_open num) xs"
    by simp_all
  from step_invariants [OF Cons.prems(1-3), of post x]
  have inv: "distinct (map fst (notify_tracker (fst (step post x s))))"
    "keys_match (tracked_classes (fst (step post x s)))"
    "counts_ok (notify_tracker (fst (step post x s)))"
    by simp_all
  from step_streak [OF Cons.prems(1) Cons.prems(2) Cons.prems(4) Cons.prems(5) now, of post]
  obtain t1 where t1: "map_of (notify_tracker (fst (step post x s))) num = Some t1"
    "lastStatus t1 = ''OPEN''"
    "count t1 = count t + int (length (reminders_for num (snd (step post x s))))"
    by blast
  from Cons.IH [OF inv t1(1) t1(2) later]
  obtain t2 where t2: "map_of (notify_tracker (fst (run post xs (fst (step post x s))))) num = Some t2"
    "lastStatus t2 = ''OPEN''"
    "count t2 = count t1
      + int (length (reminders_for num (snd (run post xs (fst (step post x s))))))"
    by blast
  from t1(3) t2 show ?case
    by (simp add: split_beta reminders_for_append)
qed

text \<open>
  Claim C5: from a well-formed state whose counts lie between 0 and 10, after every
  sequence of observations and reminder checks every stored count lies between 0 and 10;
  a count that has reached 10 is not above 10 afterwards; and in an open streak that
  starts after the opening alert (count 1, last status \<^verbatim>\<open>OPEN\<close>) at most 9 reminders are
  sent about the class.
\<close>

theorem reminder_count_bounded:
  assumes "distinct (map fst (notify_tracker s))"
    and "keys_match (tracked_classes s)"
    and "counts_ok (notify_tracker s)"
  shows "(\<forall>num t. map_of (notify_tracker (fst (run post xs s))) num = Some t
            \<longrightarrow> 0 \<le> count t \<and> count t \<le> 10)
    \<and> (\<forall>num t. map_of (notify_tracker s) num = Some t \<and> count t = 10
            \<longrightarrow> (\<exists>t'. map_of (notify_tracker (fst (run post xs s))) num = Some t'
                  \<and> count t' \<le> count t))
    \<and> (\<forall>num t. map_of (notify_tracker s) num = Some t \<and> lastStatus t = ''OPEN'' \<and> count t = 1
              \<and> list_all (stays_open num) xs
            \<longrightarrow> length (reminders_for num (snd (run post xs s))) \<le> 9)"
proof -
  from run_invariants [OF assms, of post xs]
  have ok: "counts_ok (notify_tracker (fst (run post xs s)))"
    by simp
  have range: "\<And>num t. map_of (notify_tracker (fst (run post xs s))) num = Some t
      \<Longrightarrow> 0 \<le> count t \<and> count t \<le> 10"
    using counts_ok_lookup [OF ok] by (simp add: MAX_NOTIFICATIONS_def)
  have top: "\<exists>t'. map_of (notify_tracker (fst (run post xs s))) num = Some t' \<and> count t' \<le> count t"
    if "map_of (notify_tracker s) num = Some t" and "count t = 10" for num t
  proof -
    from that(1) have "map_of (notify_tracker s) num \<noteq> None"
      by simp
    from run_stored [OF assms this, of post xs]
    obtain t' where "map_of (notify_tracker (fst (run post xs s))) num = Some t'"
      by blast
    with range [OF this] that(2) show ?thesis
      by simp
  qed
  have bound: "length (reminders_for num (snd (run post xs s))) \<le> 9"
    if "map_of (notify_tracker s) num = Some t" and "lastStatus t = ''OPEN''" and "count t = 1"
      and "list_all (stays_open num) xs" for num t
  proof -
    from run_streak [OF assms that(1) that(2) that(4), of post]
    obtain t' where t': "map_of (notify_tracker (fst (run post xs s))) num = Some t'"
      "count t' = count t + int (length (reminders_for num (snd (run post xs s))))"
      by blast
    from range [OF t'(1)] t'(2) that(3) show ?thesis
      by simp
  qed
  from range top bound show ?thesis
    by blast
qed

theorem reminder_count_bounded_witness:
  "distinct (map fst (notify_tracker state_opened))
   \<and> keys_match (tracked_classes state_opened)
   \<and> counts_ok (notify_tracker state_opened)
   \<and> list_all (stays_open ''12345'') streak_ops
   \<and> map_of (notify_tracker (fst (run (\<lambda>_. True) streak_ops state_opened))) ''12345''
       = Some \<lparr>count = 3, lastSent = 7201000, lastStatus = ''OPEN''\<rparr>
   \<and> length (reminders_for ''12345'' (snd (run (\<lambda>_. True) streak_ops state_opened))) \<le> 9"
proof -
  have 1: "distinct (map fst (notify_tracker state_opened))"
    by (simp add: state_opened_def)
  have 2: "keys_match (tracked_classes state_opened)"
    by (simp add: state_opened_def keys_match_def cse101_open_def cse101_full_def)
  have 3: "counts_ok (notify_tracker state_opened)"
    by (simp add: state_opened_def counts_ok_def MAX_NOTIFICATIONS_def)
  have 4: "list_all (stays_open ''12345'') streak_ops"
    by (simp add: streak_ops_def fresh_details_map_def cse101_open_def)
  have 5: "map_of (notify_tracker state_opened) ''12345''
      = Some \<lparr>count = 1, lastSent = 1000, lastStatus = ''OPEN''\<rparr>"
    by (simp add: state_opened_def)
  have 6: "map_of (notify_tracker (fst (run (\<lambda>_. True) streak_ops state_opened))) ''12345''
       = Some \<lparr>count = 3, lastSent = 7201000, lastStatus = ''OPEN''\<rparr>"
    by (simp add: streak_ops_def state_opened_def hourly_reminder_check_def observe_def
        fresh_details_map_def Let_def cse101_open_def cse101_full_def MAX_NOTIFICATIONS_def
        NOTIFICATION_INTERVAL_HOURS_def)
  have 7: "length (reminders_for ''12345'' (snd (run (\<lambda>_. True) streak_ops state_opened))) \<le> 9"
    using reminder_count_bounded [OF 1 2 3, of "\<lambda>_. True" streak_ops] 4 5 by simp
  from 1 2 3 4 6 7 show ?thesis
    by blast
qed

section \<open>A polling cycle, class by class\<close>

text \<open>An observation changes the entry of the observed class only, and what it makes of
  that entry depends on nothing but the entry.\<close>

lemma observe_other_entry:
  "k \<noteq> num \<Longrightarrow> entry (fst (observe post fm now k s)) num = entry s num"
  by (simp add: entry_def observe_def tracker_update_def Let_def update_conv' split: option.split)

lemma observe_entry_cong:
  "entry s num = entry s' num \<Longrightarrow>
    entry (fst (observe post fm now num s)) num = entry (fst (observe post fm now num s')) num"
  by (auto simp add: entry_def observe_def tracker_update_def Let_def update_conv' split: option.split)

text \<open>The loop over the numbers of one group, for numbers that are distinct: the entry of
  a number of the group is what one observation makes of it, every other entry is as
  before.\<close>

lemma check_numbers_frame:
  "app_settings (fst (check_numbers post fm clock numbers s)) = app_settings s"
  by (induction numbers arbitrary: s) (simp_all add: split_beta observe_frame)

lemma check_numbers_entry:
  "distinct numbers \<Longrightarrow>
    entry (fst (check_numbers post fm clock numbers s)) num =
      (if num \<in> set numbers then entry (fst (observe post fm (clock num) num s)) num
       else entry s num)"
proof (induction numbers arbitrary: s)
  case Nil
  show ?case by simp
next
  case (Cons k ks)
  from Cons.prems have k: "k \<notin> set ks" and ks: "distinct ks"
    by simp_all
  define s1 where "s1 = fst (observe post fm (clock k) k s)"
  have unfold: "fst (check_numbers post fm clock (k # ks) s) = fst (check_numbers post fm clock ks s1)"
    by (simp add: split_beta s1_def)
  note IH = Cons.IH [OF ks, of s1]
  show ?case
  proof (cases "num = k")
    case True
    with k IH unfold show ?thesis
      by (simp add: s1_def)
  next
    case False
    then have same: "entry s1 num = entry s num"
      by (simp add: s1_def observe_other_entry)
    from observe_entry_cong [OF same, of post fm "clock num"] same IH unfold False
    show ?thesis
      by simp
  qed
qed


text \<open>When no number is in two groups, the group of a number is found by a search.\<close>

lemma find_group:
  "distinct (concat (map snd gs)) \<Longrightarrow> g \<in> set gs \<Longrightarrow> num \<in> set (snd g) \<Longrightarrow>
    find (\<lambda>g. num \<in> set (snd g)) gs = Some g"
  by (induction gs) auto

lemma find_no_group:
  "num \<notin> set (concat (map snd gs)) \<Longrightarrow> find (\<lambda>g. num \<in> set (snd g)) gs = None"
  by (induction gs) auto

lemma fetched_map_settings:
  "app_settings s' = app_settings s \<Longrightarrow> fetched_map fetch s' = fetched_map fetch s"
  by (simp add: fetched_map_def fun_eq_iff)

text \<open>The loop over the groups while every fetch returns: no exception, and every entry
  is what one observation with the fetched list of its group makes of it.\<close>

lemma check_groups_frame:
  "app_settings (fst (check_groups fetch post clock groups s)) = app_settings s"
proof (induction groups arbitrary: s)
  case Nil
  show ?case by simp
next
  case (Cons g groups)
  obtain c ns where g: "g = (c, ns)"
    by (cases g)
  show ?case
    using g Cons.IH
    by (simp add: split_beta check_numbers_frame split: sum.split)
qed

lemma check_groups_all_fetched:
  assumes "distinct (concat (map snd groups))"
    and "\<forall>g \<in> set groups. \<not> isl (fetch (fst g) (term_code (app_settings s)))"
  shows "snd (snd (check_groups fetch post clock groups s)) = None
    \<and> entry (fst (check_groups fetch post clock groups s)) num =
        (case find (\<lambda>g. num \<in> set (snd g)) groups of
           None \<Rightarrow> entry s num
         | Some g \<Rightarrow>
             entry (fst (observe post (fetched_map fetch s (fst g)) (clock num) num s)) num)"
  using assms
proof (induction groups arbitrary: s)
  case Nil
  then show ?case by simp
next
  case (Cons g0 bs)
  obtain c0 ns0 where g0: "g0 = (c0, ns0)"
    by (cases g0)
  from Cons.prems(2) g0 obtain ds0 where ds0: "fetch c0 (term_code (app_settings s)) = Inr ds0"
    by (cases "fetch c0 (term_code (app_settings s))") auto
  define s1 where "s1 = fst (check_numbers post (fresh_details_map ds0) clock ns0 s)"
  have settings: "app_settings s1 = app_settings s"
    by (simp add: s1_def check_numbers_frame)
  from Cons.prems(1) g0 have d0: "distinct ns0" and dbs: "distinct (concat (map snd bs))"
    and disj: "set ns0 \<inter> set (concat (map snd bs)) = {}"
    by simp_all
  have unfold: "check_groups fetch post clock (g0 # bs) s =
      (fst (check_groups fetch post clock bs s1),
       snd (check_numbers post (fresh_details_map ds0) clock ns0 s)
         @ fst (snd (check_groups fetch post clock bs s1)),
       snd (snd (check_groups fetch post clock bs s1)))"
    using g0 ds0 by (simp add: split_beta s1_def)
  have fm: "fetched_map fetch s1 = fetched_map fetch s"
    by (rule fetched_map_settings [OF settings])
  have ok1: "\<forall>g \<in> set bs. \<not> isl (fetch (fst g) (term_code (app_settings s1)))"
    using Cons.prems(2) settings by simp
  note IH = Cons.IH [where s = s1, OF dbs ok1, unfolded fm]
  have first: "entry s1 num =
      (if num \<in> set ns0
       then entry (fst (observe post (fetched_map fetch s c0) (clock num) num s)) num
       else entry s num)"
    using check_numbers_entry [OF d0, of post "fresh_details_map ds0" clock s num] ds0
    by (simp add: s1_def fetched_map_def)
  show ?case
  proof (cases "num \<in> set ns0")
    case True
    with disj have "num \<notin> set (concat (map snd bs))"
      by blast
    then have "find (\<lambda>g. num \<in> set (snd g)) bs = None"
      by (rule find_no_group)
    with True IH first unfold g0 show ?thesis
      by simp
  next
    case False
    with first have same: "entry s1 num = entry s num"
      by simp
    have "entry (fst (observe post fm (clock num) num s1)) num
        = entry (fst (observe post fm (clock num) num s)) num" for fm
      using observe_entry_cong [OF same] .
    with False IH same unfold g0 show ?thesis
      by (simp split: option.split)
  qed
qed

text \<open>Groups whose fetch returns are passed, and the loop goes on with the rest.\<close>

lemma check_groups_append:
  assumes "\<forall>g \<in> set before. \<not> isl (fetch (fst g) (term_code (app_settings s)))"
  shows "fst (check_groups fetch post clock (before @ rest) s)
      = fst (check_groups fetch post clock rest (fst (check_groups fetch post clock before s)))
    \<and> snd (snd (check_groups fetch post clock (before @ rest) s))
      = snd (snd (check_groups fetch post clock rest (fst (check_groups fetch post clock before s))))"
  using assms
proof (induction before arbitrary: s)
  case Nil
  show ?case by simp
next
  case (Cons g0 bs)
  obtain c0 ns0 where g0: "g0 = (c0, ns0)"
    by (cases g0)
  from Cons.prems g0 obtain ds0 where ds0: "fetch c0 (term_code (app_settings s)) = Inr ds0"
    by (cases "fetch c0 (term_code (app_settings s))") auto
  define s1 where "s1 = fst (check_numbers post (fresh_details_map ds0) clock ns0 s)"
  have settings: "app_settings s1 = app_settings s"
    by (simp add: s1_def check_numbers_frame)
  have ok1: "\<forall>g \<in> set bs. \<not> isl (fetch (fst g) (term_code (app_settings s1)))"
    using Cons.prems settings by simp
  from Cons.IH [where s = s1, OF ok1] g0 ds0 show ?case
    by (simp add: split_beta s1_def)
qed

text \<open>The first fetch that raises ends the loop with the state that the groups before it
  have left.\<close>

lemma check_groups_failure:
  assumes "distinct (concat (map snd before))"
    and "\<forall>g \<in> set before. \<not> isl (fetch (fst g) (term_code (app_settings s)))"
    and "fetch c (term_code (app_settings s)) = Inl e"
  shows "snd (snd (check_groups fetch post clock (before @ (c, ns) # after) s)) = Some e
    \<and> entry (fst (check_groups fetch post clock (before @ (c, ns) # after) s)) num =
        (case find (\<lambda>g. num \<in> set (snd g)) before of
           None \<Rightarrow> entry s num
         | Some g \<Rightarrow>
             entry (fst (observe post (fetched_map fetch s (fst g)) (clock num) num s)) num)"
proof -
  define s1 where "s1 = fst (check_groups fetch post clock before s)"
  have "fetch c (term_code (app_settings s1)) = Inl e"
    using assms(3) by (simp add: s1_def check_groups_frame)
  then have stop: "check_groups fetch post clock ((c, ns) # after) s1 = (s1, [], Some e)"
    by simp
  from check_groups_append [where fetch = fetch and s = s and before = before and post = post
      and clock = clock and rest = "(c, ns) # after", OF assms(2)] stop
  have "fst (check_groups fetch post clock (before @ (c, ns) # after) s) = s1"
    and "snd (snd (check_groups fetch post clock (before @ (c, ns) # after) s)) = Some e"
    by (simp_all add: s1_def)
  with check_groups_all_fetched [where fetch = fetch and s = s and groups = before and post = post
      and clock = clock and num = num, OF assms(1) assms(2)]
  show ?thesis
    by (simp add: s1_def)
qed


text \<open>The grouping of lines 108-109 puts every tracked class number in one group, once.\<close>

lemma group_add_set:
  "set (concat (map snd
      (AList.update k ((case map_of acc k of None \<Rightarrow> [] | Some ns \<Rightarrow> ns) @ [n]) acc)))
    = insert n (set (concat (map snd acc)))"
  by (induction acc) auto

lemma group_add_distinct:
  "distinct (concat (map snd acc)) \<Longrightarrow> n \<notin> set (concat (map snd acc)) \<Longrightarrow>
    distinct (concat (map snd
      (AList.update k ((case map_of acc k of None \<Rightarrow> [] | Some ns \<Rightarrow> ns) @ [n]) acc)))"
proof (induction acc)
  case Nil
  show ?case by simp
next
  case (Cons p ps)
  show ?case
  proof (cases "fst p = k")
    case True
    with Cons.prems show ?thesis
      by (cases p) auto
  next
    case False
    with Cons.prems Cons.IH group_add_set [of k ps n] show ?thesis
      by (cases p) auto
  qed
qed

lemma classes_foldl_distinct:
  "distinct (concat (map snd acc) @ map classNumber ds) \<Longrightarrow>
    distinct (concat (map snd
      (foldl (\<lambda>acc d.
          AList.update (className d)
            ((case map_of acc (className d) of None \<Rightarrow> [] | Some ns \<Rightarrow> ns) @ [classNumber d])
            acc)
        acc ds)))"
proof (induction ds arbitrary: acc)
  case Nil
  then show ?case by simp
next
  case (Cons d ds)
  let ?acc = "AList.update (className d)
      ((case map_of acc (className d) of None \<Rightarrow> [] | Some ns \<Rightarrow> ns) @ [classNumber d]) acc"
  from Cons.prems have old: "distinct (concat (map snd acc))"
    and rest: "distinct (map classNumber ds)"
    and new: "classNumber d \<notin> set (concat (map snd acc))"
    and later: "classNumber d \<notin> set (map classNumber ds)"
    and apart: "set (concat (map snd acc)) \<inter> set (map classNumber ds) = {}"
    by auto
  have members: "set (concat (map snd ?acc)) = insert (classNumber d) (set (concat (map snd acc)))"
    by (rule group_add_set)
  have "distinct (concat (map snd ?acc))"
    using old new by (rule group_add_distinct)
  moreover have "set (concat (map snd ?acc)) \<inter> set (map classNumber ds) = {}"
    unfolding members using later apart by blast
  ultimately have "distinct (concat (map snd ?acc) @ map classNumber ds)"
    using rest by (simp only: distinct_append simp_thms)
  from Cons.IH [OF this] show ?case
    by simp
qed

lemma keys_match_numbers:
  "keys_match tc \<Longrightarrow> map (classNumber \<circ> snd) tc = map fst tc"
  by (induction tc) (auto simp add: keys_match_def)

lemma classes_to_fetch_distinct:
  assumes "distinct (map fst tc)" and "keys_match tc"
  shows "distinct (concat (map snd (classes_to_fetch tc)))"
  unfolding classes_to_fetch_def
  using assms by (intro classes_foldl_distinct) (simp add: keys_match_numbers)

text \<open>
  Claim C7, as amended. In a polling cycle over a well-formed state, let the fetch of one
  group raise while the fetches of the groups before it in the order of the cycle return.
  Then the exception leaves \<^verbatim>\<open>check_class_statuses\<close>; the classes of the failing group
  keep their snapshot and tracker; so do the classes of every group after it, which is
  not fetched; and every class of a group before it has the snapshot and tracker that its
  observation with the fetched list of its group gives.
\<close>

theorem check_class_statuses_fetch_failure:
  assumes "distinct (map fst (tracked_classes s))"
    and "keys_match (tracked_classes s)"
    and "classes_to_fetch (tracked_classes s) = before @ (class_name, numbers) # after"
    and "\<forall>g \<in> set before. \<not> isl (fetch (fst g) (term_code (app_settings s)))"
    and "fetch class_name (term_code (app_settings s)) = Inl e"
  shows "snd (snd (check_class_statuses fetch post clock s)) = Some e
    \<and> (\<forall>num \<in> set numbers.
          entry (fst (check_class_statuses fetch post clock s)) num = entry s num)
    \<and> (\<forall>g \<in> set after. \<forall>num \<in> set (snd g).
          entry (fst (check_class_statuses fetch post clock s)) num = entry s num)
    \<and> (\<forall>g \<in> set before. \<forall>num \<in> set (snd g).
          entry (fst (check_class_statuses fetch post clock s)) num
            = entry (fst (observe post (fetched_map fetch s (fst g)) (clock num) num s)) num)"
proof -
  from classes_to_fetch_distinct [OF assms(1) assms(2)] assms(3)
  have dist: "distinct (concat (map snd (before @ (class_name, numbers) # after)))"
    by simp
  then have dbefore: "distinct (concat (map snd before))"
    by simp
  have nonempty: "tracked_classes s \<noteq> []"
    using assms(3) by (auto simp add: classes_to_fetch_def)
  then have cycle: "check_class_statuses fetch post clock s
      = check_groups fetch post clock (before @ (class_name, numbers) # after) s"
    using assms(3) by (simp add: check_class_statuses_def)
  note core = check_groups_failure [where fetch = fetch and s = s and before = before and c = class_name
      and e = e and post = post and clock = clock and ns = numbers and after = after,
      OF dbefore assms(4) assms(5)]
  have result: "snd (snd (check_class_statuses fetch post clock s)) = Some e"
    using core cycle by simp
  have untouched: "entry (fst (check_class_statuses fetch post clock s)) num = entry s num"
    if "num \<notin> set (concat (map snd before))" for num
    using core [of num] cycle find_no_group [OF that] by simp
  have failing: "\<forall>num \<in> set numbers.
      entry (fst (check_class_statuses fetch post clock s)) num = entry s num"
    using dist by (intro ballI untouched) auto
  have later: "\<forall>g \<in> set after. \<forall>num \<in> set (snd g).
      entry (fst (check_class_statuses fetch post clock s)) num = entry s num"
    using dist by (intro ballI untouched) auto
  have earlier: "\<forall>g \<in> set before. \<forall>num \<in> set (snd g).
      entry (fst (check_class_statuses fetch post clock s)) num
        = entry (fst (observe post (fetched_map fetch s (fst g)) (clock num) num s)) num"
  proof (intro ballI)
    fix g num
    assume "g \<in> set before" and "num \<in> set (snd g)"
    from find_group [OF dbefore this] core [of num] cycle
    show "entry (fst (check_class_statuses fetch post clock s)) num
        = entry (fst (observe post (fetched_map fetch s (fst g)) (clock num) num s)) num"
      by simp
  qed
  from result failing later earlier show ?thesis
    by blast
qed

text \<open>The claim as stated fails: the fetch of the first group raises, the fetch of the
  second group would report its section open, and the cycle ends with the state it
  started from and without a call, the second group not updated.\<close>

theorem fetch_failure_blocks_later_group:
  "fetch_first_fails ''MAT 267'' (term_code (app_settings state_two_groups)) = Inr [mat267_open]
   \<and> check_class_statuses fetch_first_fails (\<lambda>_. True) (\<lambda>_. 2000) state_two_groups
       = (state_two_groups, [], Some FetchError)
   \<and> entry state_two_groups ''67890''
       \<noteq> entry (fst (observe (\<lambda>_. True) (fresh_details_map [mat267_open]) 2000 ''67890''
             state_two_groups)) ''67890''"
  by (simp add: fetch_first_fails_def check_class_statuses_def classes_to_fetch_def
      state_two_groups_def cse101_full_def mat267_full_def mat267_open_def settings0_def
      entry_def observe_def tracker_update_def fresh_details_map_def Let_def initial_tracker_def)

theorem check_class_statuses_fetch_failure_witness:
  "classes_to_fetch (tracked_classes state_two_groups)
     = [(''CSE 101'', [''12345''])] @ (''MAT 267'', [''67890'']) # []
   \<and> fetch_second_fails ''MAT 267'' (term_code (app_settings state_two_groups)) = Inl FetchError
   \<and> snd (snd (check_class_statuses fetch_second_fails (\<lambda>_. True) (\<lambda>_. 2000) state_two_groups))
       = Some FetchError
   \<and> entry (fst (check_class_statuses fetch_second_fails (\<lambda>_. True) (\<lambda>_. 2000) state_two_groups))
        ''67890'' = entry state_two_groups ''67890''
   \<and> entry (fst (check_class_statuses fetch_second_fails (\<lambda>_. True) (\<lambda>_. 2000) state_two_groups))
        ''12345'' = (Some cse101_open, Some \<lparr>count = 1, lastSent = 2000, lastStatus = ''OPEN''\<rparr>)"
proof -
  have 1: "distinct (map fst (tracked_classes state_two_groups))"
    by (simp add: state_two_groups_def)
  have 2: "keys_match (tracked_classes state_two_groups)"
    by (simp add: state_two_groups_def keys_match_def cse101_full_def mat267_full_def)
  have 3: "classes_to_fetch (tracked_classes state_two_groups)
     = [(''CSE 101'', [''12345''])] @ (''MAT 267'', [''67890'']) # []"
    by (simp add: state_two_groups_def classes_to_fetch_def cse101_full_def mat267_full_def)
  have 4: "\<forall>g \<in> set [(''CSE 101'', [''12345''])].
      \<not> isl (fetch_second_fails (fst g) (term_code (app_settings state_two_groups)))"
    by (simp add: fetch_second_fails_def)
  have 5: "fetch_second_fails ''MAT 267'' (term_code (app_settings state_two_groups)) = Inl FetchError"
    by (simp add: fetch_second_fails_def)
  have 6: "entry (fst (observe (\<lambda>_. True) (fetched_map fetch_second_fails state_two_groups ''CSE 101'')
        2000 ''12345'' state_two_groups)) ''12345''
      = (Some cse101_open, Some \<lparr>count = 1, lastSent = 2000, lastStatus = ''OPEN''\<rparr>)"
    by (simp add: fetched_map_def fetch_second_fails_def fresh_details_map_def observe_def
        tracker_update_def Let_def entry_def state_two_groups_def cse101_open_def cse101_full_def
        initial_tracker_def)
  from check_class_statuses_fetch_failure [where fetch = fetch_second_fails and s = state_two_groups
      and before = "[(''CSE 101'', [''12345''])]" and class_name = "''MAT 267''"
      and numbers = "[''67890'']" and after = "[]" and e = FetchError and post = "\<lambda>_. True"
      and clock = "\<lambda>_. 2000", OF 1 2 3 4 5] 3 5 6
  show ?thesis
    by simp
qed

section \<open>Well-formed states are the reachable ones\<close>

text \<open>The module starts in a well-formed state and every operation keeps the state well
  formed, so the hypotheses on the state made above hold of every state the module
  reaches.\<close>

lemma wf_state_empty: "wf_state state_empty"
  by (simp add: wf_state_def state_empty_def keys_match_def counts_ok_def)

lemma fresh_details_map_keys_match: "keys_match (fresh_details_map ds)"
  unfolding fresh_details_map_def by (rule keys_match_foldl) (simp add: keys_match_def)

lemma observe_wf:
  assumes "wf_state s" and "keys_match fm"
  shows "wf_state (fst (observe post fm now k s))"
proof -
  have "distinct (map fst (tracked_classes (fst (observe post fm now k s))))"
    using assms(1)
    by (simp add: wf_state_def observe_def tracker_update_def Let_def distinct_update
        split: option.split)
  moreover have "keys_match (tracked_classes (fst (observe post fm now k s)))"
    using assms by (intro observe_keys_match) (auto simp add: wf_state_def dest: keys_match_lookup)
  ultimately show ?thesis
    using assms(1) by (simp add: wf_state_def observe_distinct observe_counts_ok)
qed

lemma check_numbers_wf:
  "wf_state s \<Longrightarrow> keys_match fm \<Longrightarrow> wf_state (fst (check_numbers post fm clock numbers s))"
  by (induction numbers arbitrary: s) (simp_all add: split_beta observe_wf)

lemma check_groups_wf:
  "wf_state s \<Longrightarrow> wf_state (fst (check_groups fetch post clock groups s))"
proof (induction groups arbitrary: s)
  case Nil
  then show ?case by simp
next
  case (Cons g groups)
  obtain c ns where g: "g = (c, ns)"
    by (cases g)
  show ?case
    using g Cons.prems Cons.IH
    by (simp add: split_beta check_numbers_wf fresh_details_map_keys_match split: sum.split)
qed

lemma check_class_statuses_wf:
  "wf_state s \<Longrightarrow> wf_state (fst (check_class_statuses fetch post clock s))"
  by (simp add: check_class_statuses_def check_groups_wf)

lemma hourly_reminder_check_wf:
  "wf_state s \<Longrightarrow> wf_state (fst (hourly_reminder_check post now s))"
  by (simp add: wf_state_def hourly_reminder_check_def reminder_loop_frame reminder_loop_distinct
      reminder_loop_counts_ok)

lemma immediate_loop_wf:
  "wf_state s \<Longrightarrow> wf_state (fst (immediate_loop post now k ds s))"
proof (induction ds)
  case Nil
  then show ?case by simp
next
  case (Cons d ds)
  then show ?case
    by (simp add: wf_state_def Let_def distinct_update keys_match_update counts_ok_update
        initial_tracker_def MAX_NOTIFICATIONS_def)
qed

lemma add_tracked_class_wf:
  assumes "wf_state s"
  shows "wf_state (fst (add_tracked_class fetch post now cd s))"
proof -
  have "wf_state (s\<lparr>tracked_classes := AList.update (classNumber cd) cd (tracked_classes s)\<rparr>)"
    using assms by (simp add: wf_state_def distinct_update keys_match_update)
  then show ?thesis
    by (simp add: add_tracked_class_def perform_immediate_check_def Let_def split_beta
        immediate_loop_wf assms split: sum.split)
qed

lemma keys_match_delete: "keys_match tc \<Longrightarrow> keys_match (AList.delete k tc)"
  by (induction tc) (auto simp add: keys_match_def)

lemma counts_ok_delete: "counts_ok nt \<Longrightarrow> counts_ok (AList.delete k nt)"
  by (induction nt) (auto simp add: counts_ok_def)

lemma delete_tracked_class_wf:
  "wf_state s \<Longrightarrow> wf_state (delete_tracked_class k s)"
  by (simp add: wf_state_def delete_tracked_class_def distinct_delete keys_match_delete
      counts_ok_delete)

text \<open>Removing a class removes its snapshot and its tracker.\<close>

lemma delete_tracked_class_entry:
  "entry (delete_tracked_class k s) k = (None, None)"
  by (simp add: entry_def delete_tracked_class_def delete_conv')

end
